theory Spec2Isabelle
  imports Main
begin

section \<open>Attribute values and deep comparison (comparedeep.ts)\<close>

text \<open>
  Attribute values are JavaScript values of any shape. They are modelled as the
  JSON-like values: primitives, arrays and plain objects. An object is an association
  list in insertion order; \<open>compareDeep\<close> never looks at the order.
\<close>

datatype jsval =
    JNull
  | JBool bool
  | JNum int
  | JStr string
  | JArr "jsval list"
  | JObj "(string \<times> jsval) list"

type_synonym Attrs = "(string \<times> jsval) list"

text \<open>\<open>p in b\<close> on a plain object.\<close>

definition hasKey :: "string \<Rightarrow> (string \<times> 'a) list \<Rightarrow> bool" where
  "hasKey p b = (map_of b p \<noteq> None)"

lemma size_map_of_less:
  "map_of a p = Some v \<Longrightarrow> size v < Suc (size_list (size_prod (\<lambda>_. 0) size) a)"
  by (induction a) (auto split: if_splits)

text \<open>
  \<open>compareDeep(a, b)\<close>: identical primitives are equal; arrays are compared by length
  and then element by element; objects key by key (\<open>for (let p in a)\<close>, reading
  \<open>a[p]\<close> and \<open>b[p]\<close>) and then for the keys of \<open>b\<close>. A primitive never equals an array
  or an object, and an array never equals an object. Two references to one object are
  equal by the first test of the source (\<open>a === b\<close>); the structural comparison gives
  the same answer for them.
\<close>

function compareDeep :: "jsval \<Rightarrow> jsval \<Rightarrow> bool" where
  "compareDeep (JArr xs) (JArr ys) = list_all2 compareDeep xs ys"
| "compareDeep (JObj a) (JObj b) =
     (list_all (\<lambda>p. case map_of a p of None \<Rightarrow> False
                  | Some v \<Rightarrow> (case map_of b p of None \<Rightarrow> False
                               | Some w \<Rightarrow> compareDeep v w)) (map fst a)
      \<and> list_all (\<lambda>p. hasKey p a) (map fst b))"
| "compareDeep (JArr xs) (JObj b) = False"
| "compareDeep (JObj a) (JArr ys) = False"
| "compareDeep JNull b = (b = JNull)"
| "compareDeep (JBool x) b = (b = JBool x)"
| "compareDeep (JNum x) b = (b = JNum x)"
| "compareDeep (JStr x) b = (b = JStr x)"
| "compareDeep (JArr xs) JNull = False"
| "compareDeep (JArr xs) (JBool y) = False"
| "compareDeep (JArr xs) (JNum y) = False"
| "compareDeep (JArr xs) (JStr y) = False"
| "compareDeep (JObj a) JNull = False"
| "compareDeep (JObj a) (JBool y) = False"
| "compareDeep (JObj a) (JNum y) = False"
| "compareDeep (JObj a) (JStr y) = False"
  by pat_completeness auto
termination
proof (relation "measure (\<lambda>(a, b). size a)")
  show "wf (measure (\<lambda>(a, b). size a))" by simp
next
  fix xs ys :: "jsval list" and x y
  assume "x \<in> set xs"
  then have "size x < Suc (size_list size xs)"
    by (induction xs) auto
  then show "((x, y), (JArr xs, JArr ys)) \<in> measure (\<lambda>(a, b). size a)" by simp
next
  fix a b :: "(string \<times> jsval) list" and p v w
  assume "map_of a p = Some v"
  then show "((v, w), (JObj a, JObj b)) \<in> measure (\<lambda>(a, b). size a)"
    using size_map_of_less [of a p v] by simp
qed

section \<open>Schema: attribute descriptors, mark types, node types (schema.ts)\<close>

text \<open>
  An \<open>Attribute\<close> descriptor: whether the spec gives a default, the default, and the
  validator. The validator is the one the source builds from a spec of type names
  (\<open>validate: "string|number"\<close>, see \<open>validateType\<close>): the list of the names it
  accepts. A validator given as a function is not modelled.
\<close>

record Attribute =
  hasDefault :: bool
  default_value :: jsval
  validate :: "string list option"

text \<open>
  A \<open>MarkType\<close>. Types of one schema are compared by reference in the source; a
  schema has one type per name, so the list \<open>excluded\<close> holds the names of the
  excluded types.
\<close>

record MarkType =
  mt_name :: string
  mt_rank :: int
  mt_attrs :: "(string \<times> Attribute) list"
  mt_excluded :: "string list"

text \<open>\<open>MarkType.excludes\<close>: \<open>this.excluded.indexOf(other) > -1\<close>.\<close>

definition excludes :: "MarkType \<Rightarrow> MarkType \<Rightarrow> bool" where
  "excludes this other = (mt_name other \<in> set (mt_excluded this))"

text \<open>
  A \<open>ContentMatch\<close> is one state of the automaton compiled from a content
  expression. The automaton is the table \<open>labeled\<close> that \<open>dfa\<close> builds: it maps the
  label of a state (the sorted list of NFA states that \<open>states.join(",")\<close> prints) to
  its \<open>validEnd\<close> flag and its \<open>next\<close> edges, each a node-type name and the label of
  the target. \<open>ContentMatch.empty\<close> is one shared object that the source recognises by
  reference, so it is a constructor of its own.
\<close>

type_synonym label = "nat list"

type_synonym MatchEdge = "string \<times> label"

datatype ContentMatch =
    CMEmpty
  | CM "(label \<times> bool \<times> MatchEdge list) list" label

record NodeType =
  nt_name :: string
  nt_groups :: "string list"
  nt_attrs :: "(string \<times> Attribute) list"
  nt_inline :: bool
  contentMatch :: ContentMatch
  markSet :: "string list option"

definition type_isText :: "NodeType \<Rightarrow> bool" where
  "type_isText t = (nt_name t = ''text'')"

definition type_isLeaf :: "NodeType \<Rightarrow> bool" where
  "type_isLeaf t = (contentMatch t = CMEmpty)"

section \<open>Marks and nodes (mark.ts, node.ts, fragment.ts)\<close>

datatype Mark = Mark (mark_type: MarkType) (mark_attrs: Attrs)

text \<open>
  A \<open>Node\<close> has a type, attributes, a fragment of children and marks; a \<open>TextNode\<close>
  has a string in place of children. A \<open>Fragment\<close> is the array of its children; its
  \<open>size\<close> field always holds the sum of their sizes, so it is computed.
  Positions and sizes are integers. A string is a list of code units.
\<close>

datatype Node =
    Node (node_type: NodeType) (node_attrs: Attrs) (node_content: "Node list")
         (node_marks: "Mark list")
  | TextNode (node_type: NodeType) (node_attrs: Attrs) (node_text: string)
         (node_marks: "Mark list")
where
  "node_content (TextNode t a s m) = []"
| "node_text (Node t a c m) = []"

type_synonym Fragment = "Node list"

definition isText :: "Node \<Rightarrow> bool" where
  "isText n = type_isText (node_type n)"

definition isLeaf :: "Node \<Rightarrow> bool" where
  "isLeaf n = type_isLeaf (node_type n)"

text \<open>
  \<open>Node.nodeSize\<close> is \<open>this.isLeaf ? 1 : 2 + this.content.size\<close>; \<open>TextNode\<close>
  overrides it with \<open>this.text.length\<close>. \<open>Fragment_size\<close> is the loop of the
  \<open>Fragment\<close> constructor.
\<close>

fun nodeSize :: "Node \<Rightarrow> int" and Fragment_size :: "Node list \<Rightarrow> int" where
  "nodeSize (TextNode t a s m) = int (length s)"
| "nodeSize (Node t a c m) = (if type_isLeaf t then 1 else 2 + Fragment_size c)"
| "Fragment_size [] = 0"
| "Fragment_size (n # ns) = nodeSize n + Fragment_size ns"

subsection \<open>Mark sets (mark.ts)\<close>

text \<open>
  \<open>Mark.eq\<close>: \<open>this == other || (this.type == other.type && compareDeep(this.attrs,
  other.attrs))\<close>. The attributes of a mark are a plain object.
\<close>

definition Mark_eq :: "Mark \<Rightarrow> Mark \<Rightarrow> bool" where
  "Mark_eq this other =
     (mark_type this = mark_type other
      \<and> compareDeep (JObj (mark_attrs this)) (JObj (mark_attrs other)))"

text \<open>
  The loop of \<open>Mark.addToSet\<close>. \<open>pre\<close> is \<open>set.slice(0, i)\<close>, the members already
  visited; \<open>copy\<close> is \<open>None\<close> while the source's \<open>copy\<close> is undefined. The two early
  exits return \<open>set\<close> itself.
\<close>

fun addToSet_loop ::
  "Mark \<Rightarrow> Mark list \<Rightarrow> Mark list \<Rightarrow> Mark list \<Rightarrow> Mark list option \<Rightarrow> bool \<Rightarrow> Mark list"
where
  "addToSet_loop this set0 pre [] copy placed =
     (let copy1 = (case copy of None \<Rightarrow> set0 | Some c \<Rightarrow> c)
      in if placed then copy1 else copy1 @ [this])"
| "addToSet_loop this set0 pre (other # rest) copy placed =
     (if Mark_eq this other then set0
      else if excludes (mark_type this) (mark_type other) then
        addToSet_loop this set0 (pre @ [other]) rest
          (case copy of None \<Rightarrow> Some pre | Some c \<Rightarrow> Some c) placed
      else if excludes (mark_type other) (mark_type this) then set0
      else if \<not> placed \<and> mt_rank (mark_type other) > mt_rank (mark_type this) then
        addToSet_loop this set0 (pre @ [other]) rest
          (Some ((case copy of None \<Rightarrow> pre | Some c \<Rightarrow> c) @ [this] @ [other])) True
      else
        addToSet_loop this set0 (pre @ [other]) rest
          (case copy of None \<Rightarrow> None | Some c \<Rightarrow> Some (c @ [other])) placed)"

definition addToSet :: "Mark \<Rightarrow> Mark list \<Rightarrow> Mark list" where
  "addToSet this set0 = addToSet_loop this set0 [] set0 None False"

text \<open>\<open>Mark.sameSet\<close>: equal lengths and \<open>eq\<close> at every index.\<close>

definition sameSet :: "Mark list \<Rightarrow> Mark list \<Rightarrow> bool" where
  "sameSet a b = list_all2 Mark_eq a b"

text \<open>
  A mark set is rank-sorted when the ranks of its members never decrease, and
  deduplicated when no two of its members are \<open>eq\<close>.
\<close>

definition rank_sorted :: "Mark list \<Rightarrow> bool" where
  "rank_sorted ms = sorted (map (\<lambda>m. mt_rank (mark_type m)) ms)"

fun deduplicated :: "Mark list \<Rightarrow> bool" where
  "deduplicated [] = True"
| "deduplicated (m # ms) =
     (list_all (\<lambda>x. \<not> Mark_eq m x \<and> \<not> Mark_eq x m) ms \<and> deduplicated ms)"

text \<open>
  The set that \<open>addToSet\<close> is to return, in the words of its contract: the mark placed
  before the first member of strictly greater rank.
\<close>

definition placeByRank :: "Mark \<Rightarrow> Mark list \<Rightarrow> Mark list" where
  "placeByRank m ms =
     takeWhile (\<lambda>x. mt_rank (mark_type x) \<le> mt_rank (mark_type m)) ms
     @ m # dropWhile (\<lambda>x. mt_rank (mark_type x) \<le> mt_rank (mark_type m)) ms"

text \<open>The invariant of the loop of \<open>addToSet\<close> after the members \<open>pre\<close>.\<close>

definition addToSet_inv :: "Mark \<Rightarrow> Mark list \<Rightarrow> Mark list option \<Rightarrow> bool \<Rightarrow> bool" where
  "addToSet_inv m pre copy placed =
     (let R = filter (\<lambda>x. \<not> excludes (mark_type m) (mark_type x)) pre;
          le = list_all (\<lambda>x. mt_rank (mark_type x) \<le> mt_rank (mark_type m)) R
      in if placed then copy = Some (placeByRank m R) \<and> \<not> le
         else le \<and> (case copy of None \<Rightarrow> R = pre | Some c \<Rightarrow> c = R))"

section \<open>Position maps (map.ts)\<close>

text \<open>
  A \<open>StepMap\<close> holds a flat array of triples \<open>start, oldSize, newSize\<close> and the flag
  \<open>inverted\<close>. The constructor returns the shared \<open>StepMap.empty\<close> (which is not
  inverted) for an empty array.
\<close>

record StepMap =
  ranges :: "int list"
  inverted :: bool

definition StepMap_empty :: StepMap where
  "StepMap_empty = \<lparr>ranges = [], inverted = False\<rparr>"

definition new_StepMap :: "int list \<Rightarrow> bool \<Rightarrow> StepMap" where
  "new_StepMap rs invd = (if rs = [] then StepMap_empty else \<lparr>ranges = rs, inverted = invd\<rparr>)"

record MapResult =
  mr_pos :: int
  delInfo :: int
  recover :: "int option"

definition DEL_BEFORE :: int where "DEL_BEFORE = 1"
definition DEL_AFTER :: int where "DEL_AFTER = 2"
definition DEL_ACROSS :: int where "DEL_ACROSS = 4"
definition DEL_SIDE :: int where "DEL_SIDE = 8"

definition makeRecover :: "int \<Rightarrow> int \<Rightarrow> int" where
  "makeRecover index offset = index + offset * 2 ^ 16"

definition deleted :: "MapResult \<Rightarrow> bool" where
  "deleted r = (and (delInfo r) DEL_SIDE > 0)"

text \<open>
  \<open>StepMap._map\<close> returns a number when \<open>simple\<close> is set and a \<open>MapResult\<close> otherwise.
\<close>

datatype MapOut = Simple int | Full MapResult

text \<open>
  The loop of \<open>_map\<close> over the triples from index \<open>i\<close> on (\<open>rs\<close> is the rest of the
  array from \<open>i\<close>, \<open>idx\<close> is \<open>i / 3\<close>). The array of a \<open>StepMap\<close> holds whole triples;
  the loop of the model ends where less than a triple is left.
\<close>

fun map_loop :: "bool \<Rightarrow> int list \<Rightarrow> int \<Rightarrow> int \<Rightarrow> int \<Rightarrow> int \<Rightarrow> bool \<Rightarrow> MapOut" where
  "map_loop invd (s # a # b # rs) idx diff pos assoc simple =
     (let start = s - (if invd then diff else 0) in
      if start > pos then
        (if simple then Simple (pos + diff)
         else Full \<lparr>mr_pos = pos + diff, delInfo = 0, recover = None\<rparr>)
      else
        let oldSize = (if invd then b else a);
            newSize = (if invd then a else b);
            end = start + oldSize
        in if pos \<le> end then
             let side = (if oldSize = 0 then assoc
                         else if pos = start then - 1
                         else if pos = end then 1 else assoc);
                 result = start + diff + (if side < 0 then 0 else newSize)
             in if simple then Simple result
                else
                  let recover = (if pos = (if assoc < 0 then start else end) then None
                                 else Some (makeRecover idx (pos - start)));
                      del = (if pos = start then DEL_AFTER
                             else if pos = end then DEL_BEFORE else DEL_ACROSS);
                      del2 = (if (if assoc < 0 then pos \<noteq> start else pos \<noteq> end)
                              then or del DEL_SIDE else del)
                  in Full \<lparr>mr_pos = result, delInfo = del2, recover = recover\<rparr>
           else map_loop invd rs (idx + 1) (diff + (newSize - oldSize)) pos assoc simple)"
| "map_loop invd rs idx diff pos assoc simple =
     (if simple then Simple (pos + diff)
      else Full \<lparr>mr_pos = pos + diff, delInfo = 0, recover = None\<rparr>)"

definition StepMap_map_internal :: "StepMap \<Rightarrow> int \<Rightarrow> int \<Rightarrow> bool \<Rightarrow> MapOut" where
  "StepMap_map_internal m pos assoc simple =
     map_loop (inverted m) (ranges m) 0 0 pos assoc simple"

text \<open>\<open>map(pos, assoc = 1)\<close> and \<open>mapResult(pos, assoc = 1)\<close>.\<close>

definition StepMap_map :: "StepMap \<Rightarrow> int \<Rightarrow> int \<Rightarrow> int" where
  "StepMap_map m pos assoc =
     (case StepMap_map_internal m pos assoc True of Simple n \<Rightarrow> n | Full r \<Rightarrow> mr_pos r)"

definition StepMap_mapResult :: "StepMap \<Rightarrow> int \<Rightarrow> int \<Rightarrow> MapResult" where
  "StepMap_mapResult m pos assoc =
     (case StepMap_map_internal m pos assoc False of
        Full r \<Rightarrow> r
      | Simple n \<Rightarrow> \<lparr>mr_pos = n, delInfo = 0, recover = None\<rparr>)"

definition StepMap_invert :: "StepMap \<Rightarrow> StepMap" where
  "StepMap_invert m = new_StepMap (ranges m) (\<not> inverted m)"

text \<open>
  The ranges of a map lie apart when every triple has sizes that are not negative and
  starts after the end of the range before it (\<open>lb\<close> is that end). A position is
  outside the deleted content when it is in no interval \<open>[start, start + oldSize)\<close>.
\<close>

fun apart :: "int \<Rightarrow> int list \<Rightarrow> bool" where
  "apart lb (s # a # b # rs) = (lb < s \<and> 0 \<le> a \<and> 0 \<le> b \<and> apart (s + a) rs)"
| "apart lb [] = True"
| "apart lb rs = False"

definition ranges_apart :: "int list \<Rightarrow> bool" where
  "ranges_apart rs = (case rs of [] \<Rightarrow> True | s # _ \<Rightarrow> apart (s - 1) rs)"

fun outside_deleted :: "int \<Rightarrow> int list \<Rightarrow> bool" where
  "outside_deleted p (s # a # b # rs) = (\<not> (s \<le> p \<and> p < s + a) \<and> outside_deleted p rs)"
| "outside_deleted p rs = True"

text \<open>
  The number that the loop of \<open>map\<close> returns with \<open>assoc = 1\<close>, for a map that is not
  inverted (\<open>fwd\<close>) and for an inverted one (\<open>bwd\<close>), from any point of the loop.
\<close>

definition fwd :: "int list \<Rightarrow> int \<Rightarrow> int \<Rightarrow> int \<Rightarrow> int" where
  "fwd rs i d p = (case map_loop False rs i d p 1 True of Simple n \<Rightarrow> n | Full r \<Rightarrow> mr_pos r)"

definition bwd :: "int list \<Rightarrow> int \<Rightarrow> int \<Rightarrow> int \<Rightarrow> int" where
  "bwd rs i d p = (case map_loop True rs i d p 1 True of Simple n \<Rightarrow> n | Full r \<Rightarrow> mr_pos r)"

section \<open>Errors\<close>

text \<open>
  What the source throws is a value of the model: the error classes of the source,
  and \<open>TypeError\<close> for what the JavaScript engine throws when a property of
  \<open>undefined\<close> is read or a missing method is called. A function that can throw
  returns \<open>error + 'a\<close>, with \<open>Inl\<close> for the exception.
\<close>

datatype error =
    RangeError string
  | ReplaceError string
  | SyntaxError string
  | PlainError string
  | TypeError

definition bindE :: "error + 'a \<Rightarrow> ('a \<Rightarrow> error + 'b) \<Rightarrow> error + 'b" where
  "bindE m f = (case m of Inl e \<Rightarrow> Inl e | Inr x \<Rightarrow> f x)"

lemma bindE_cong [fundef_cong]:
  "m = m' \<Longrightarrow> (\<And>x. m' = Inr x \<Longrightarrow> f x = f' x) \<Longrightarrow> bindE m f = bindE m' f'"
  by (auto simp: bindE_def split: sum.splits)

lemma bindE_Inr [simp]: "bindE (Inr x) f = f x"
  by (simp add: bindE_def)

lemma bindE_Inl [simp]: "bindE (Inl e) f = Inl e"
  by (simp add: bindE_def)

section \<open>Fragments (fragment.ts)\<close>

text \<open>\<open>child(index)\<close> throws out of range; \<open>maybeChild(index)\<close> returns \<open>null\<close>.\<close>

definition Fragment_child :: "Node list \<Rightarrow> nat \<Rightarrow> error + Node" where
  "Fragment_child c i = (if i < length c then Inr (c ! i) else Inl (RangeError ''Index out of range''))"

definition maybeChild :: "Node list \<Rightarrow> nat \<Rightarrow> Node option" where
  "maybeChild c i = (if i < length c then Some (c ! i) else None)"

text \<open>
  \<open>Fragment.findIndex(pos, round = -1)\<close>: the index and the offset of the child that
  \<open>pos\<close> points into or before. The loop reads \<open>this.child(i)\<close>, which throws past the
  last child.
\<close>

fun findIndex_loop :: "Node list \<Rightarrow> nat \<Rightarrow> int \<Rightarrow> int \<Rightarrow> int \<Rightarrow> error + (nat \<times> int)" where
  "findIndex_loop [] i curPos pos round = Inl (RangeError ''Index out of range'')"
| "findIndex_loop (cur # rest) i curPos pos round =
     (let end = curPos + nodeSize cur in
      if end \<ge> pos then
        (if end = pos \<or> round > 0 then Inr (i + 1, end) else Inr (i, curPos))
      else findIndex_loop rest (i + 1) end pos round)"

definition findIndex :: "Node list \<Rightarrow> int \<Rightarrow> int \<Rightarrow> error + (nat \<times> int)" where
  "findIndex c pos round =
     (if pos = 0 then Inr (0, pos)
      else if pos = Fragment_size c then Inr (length c, pos)
      else if pos > Fragment_size c \<or> pos < 0 then
        Inl (RangeError ''Position outside of fragment'')
      else findIndex_loop c 0 0 pos round)"

section \<open>Resolved positions (resolvedpos.ts)\<close>

text \<open>
  The \<open>path\<close> array of a \<open>ResolvedPos\<close> holds, for each depth, a node, the index into
  it and the offset of the start of that child; the source pushes the three at a time,
  and the model keeps them as one triple, so the length of the source's array is three
  times the length of the list. The constructor computes \<open>depth\<close>.
\<close>

record ResolvedPos =
  rp_pos :: int
  rp_path :: "(Node \<times> nat \<times> int) list"
  parentOffset :: int
  depth :: int

definition path_length :: "(Node \<times> nat \<times> int) list \<Rightarrow> int" where
  "path_length p = 3 * int (length p)"

definition new_ResolvedPos :: "int \<Rightarrow> (Node \<times> nat \<times> int) list \<Rightarrow> int \<Rightarrow> ResolvedPos" where
  "new_ResolvedPos pos path poff =
     \<lparr>rp_pos = pos, rp_path = path, parentOffset = poff, depth = path_length path div 3 - 1\<rparr>"

lemma size_node_content: "n \<in> set (node_content node) \<Longrightarrow> size n < size node"
  by (cases node) (auto simp: less_Suc_eq_le intro: size_list_estimation')

text \<open>
  The loop of \<open>ResolvedPos.resolve\<close>: it returns the path and the last
  \<open>parentOffset\<close>.
\<close>

function resolve_loop ::
  "Node \<Rightarrow> (Node \<times> nat \<times> int) list \<Rightarrow> int \<Rightarrow> int \<Rightarrow> error + ((Node \<times> nat \<times> int) list \<times> int)"
where
  "resolve_loop node path start poff =
     bindE (findIndex (node_content node) poff (- 1)) (\<lambda>(index, offset).
       let rem = poff - offset;
           path1 = path @ [(node, index, start + offset)]
       in if rem = 0 then Inr (path1, poff)
          else bindE (Fragment_child (node_content node) index) (\<lambda>node1.
            if isText node1 then Inr (path1, poff)
            else resolve_loop node1 path1 (start + (offset + 1)) (rem - 1)))"
  by pat_completeness auto
termination
proof (relation "measure (\<lambda>(node, path, start, poff). size node)")
  show "wf (measure (\<lambda>(node, path, start, poff). size node))" by simp
qed (auto simp: Fragment_child_def size_node_content split: if_splits)

declare resolve_loop.simps [simp del]

definition resolve :: "Node \<Rightarrow> int \<Rightarrow> error + ResolvedPos" where
  "resolve doc pos =
     (if \<not> (pos \<ge> 0 \<and> pos \<le> Fragment_size (node_content doc)) then
        Inl (RangeError ''Position out of range'')
      else bindE (resolve_loop doc [] 0 pos) (\<lambda>(path, poff).
        Inr (new_ResolvedPos pos path poff)))"

text \<open>
  \<open>Node.resolve\<close> goes through \<open>resolveCached\<close>: the cache of a document holds results
  of \<open>resolve\<close> for that document, found by their \<open>pos\<close>, so with or without a hit the
  result is that of \<open>resolve\<close>.
\<close>

definition Node_resolve :: "Node \<Rightarrow> int \<Rightarrow> error + ResolvedPos" where
  "Node_resolve doc pos = resolve doc pos"

text \<open>
  Only \<open>schema.text\<close> and the methods of \<open>TextNode\<close> build a \<open>TextNode\<close>, with the text type
  of the schema, and \<open>NodeType.create\<close> refuses the text type: in every tree a node is a
  \<open>TextNode\<close> exactly when its type is the text type.
\<close>

fun text_typed :: "Node \<Rightarrow> bool" where
  "text_typed (TextNode t a s m) = type_isText t"
| "text_typed (Node t a c m) = (\<not> type_isText t \<and> list_all text_typed c)"

section \<open>Node and fragment operations (node.ts, fragment.ts)\<close>

text \<open>
  \<open>String.prototype.slice\<close> and \<open>Array.prototype.slice\<close>: a negative index counts from
  the end, and both ends are clipped to the length.
\<close>

definition js_slice :: "'a list \<Rightarrow> int \<Rightarrow> int \<Rightarrow> 'a list" where
  "js_slice s start end =
     (let len = int (length s);
          from = (if start < 0 then max (len + start) 0 else min start len);
          to = (if end < 0 then max (len + end) 0 else min end len)
      in if from < to then take (nat (to - from)) (drop (nat from) s) else [])"

text \<open>
  \<open>Node.sameMarkup\<close> is \<open>hasMarkup(other.type, other.attrs, other.marks)\<close>: the same
  type, attributes equal by \<open>compareDeep\<close>, and \<open>Mark.sameSet\<close> of the marks.
\<close>

definition sameMarkup :: "Node \<Rightarrow> Node \<Rightarrow> bool" where
  "sameMarkup this other =
     (node_type this = node_type other
      \<and> compareDeep (JObj (node_attrs this)) (JObj (node_attrs other))
      \<and> sameSet (node_marks this) (node_marks other))"

text \<open>
  \<open>Node.eq\<close> is \<open>this == other || (this.sameMarkup(other) && this.content.eq(other.content))\<close>,
  and \<open>Fragment.eq\<close> compares the lengths and then the children by \<open>eq\<close>; \<open>TextNode.eq\<close>
  compares the markup and the text. The text of a node that is not a \<open>TextNode\<close> is
  \<open>undefined\<close>.
\<close>

fun Node_eq :: "Node \<Rightarrow> Node \<Rightarrow> bool" where
  "Node_eq (Node t a c m) other =
     (sameMarkup (Node t a c m) other \<and> list_all2 Node_eq c (node_content other))"
| "Node_eq (TextNode t a s m) other =
     (sameMarkup (TextNode t a s m) other
      \<and> (case other of TextNode t' a' s' m' \<Rightarrow> s = s' | Node t' a' c' m' \<Rightarrow> False))"

definition Fragment_eq :: "Node list \<Rightarrow> Node list \<Rightarrow> bool" where
  "Fragment_eq a b = list_all2 Node_eq a b"

text \<open>
  \<open>node.text\<close> as the source reads it inside a string concatenation: the text of a
  \<open>TextNode\<close>, and the string \<open>undefined\<close> for any other node.
\<close>

definition text_or_undefined :: "Node \<Rightarrow> string" where
  "text_or_undefined n =
     (case n of TextNode t a s m \<Rightarrow> s | Node t a c m \<Rightarrow> ''undefined'')"

text \<open>
  \<open>TextNode.withText\<close>; the constructor of \<open>TextNode\<close> throws for an empty string. Only
  \<open>TextNode\<close> has the method.
\<close>

definition withText :: "Node \<Rightarrow> string \<Rightarrow> error + Node" where
  "withText this txt =
     (case this of
        TextNode t a s m \<Rightarrow>
          if txt = s then Inr this
          else if txt = [] then Inl (RangeError ''Empty text nodes are not allowed'')
          else Inr (TextNode t a txt m)
      | Node t a c m \<Rightarrow> Inl TypeError)"

text \<open>
  \<open>Node.copy(content)\<close> returns \<open>this\<close> when \<open>content\<close> is the fragment of the node
  itself, and a \<open>Node\<close> with the new content otherwise; for a \<open>Node\<close> the two are the same
  value.
\<close>

definition Node_copy :: "Node \<Rightarrow> Node list \<Rightarrow> Node" where
  "Node_copy this c = Node (node_type this) (node_attrs this) c (node_marks this)"

text \<open>
  \<open>Fragment.cut(from, to)\<close>, \<open>Node.cut(from, to)\<close> and \<open>TextNode.cut(from, to)\<close>.
  \<open>cut_loop\<close> is the loop of \<open>Fragment.cut\<close> over the children from index \<open>i\<close> on, at
  position \<open>pos\<close>; reading a child past the end is a \<open>TypeError\<close>.
\<close>

function cut_loop :: "Node list \<Rightarrow> int \<Rightarrow> int \<Rightarrow> int \<Rightarrow> error + Node list"
  and Fragment_cut :: "Node list \<Rightarrow> int \<Rightarrow> int \<Rightarrow> error + Node list"
  and Node_cut :: "Node \<Rightarrow> int \<Rightarrow> int \<Rightarrow> error + Node"
where
  "cut_loop cs pos from to =
     (if pos < to then
        (case cs of
           [] \<Rightarrow> Inl TypeError
         | ch # rest \<Rightarrow>
             (let end = pos + nodeSize ch in
              if end > from then
                bindE
                  (if pos < from \<or> end > to then
                     (if isText ch then
                        (case ch of
                           TextNode t a s m \<Rightarrow>
                             Node_cut ch (max 0 (from - pos)) (min (int (length s)) (to - pos))
                         | Node t a c m \<Rightarrow> Inl TypeError)
                      else Node_cut ch (max 0 (from - pos - 1))
                             (min (Fragment_size (node_content ch)) (to - pos - 1)))
                   else Inr ch)
                  (\<lambda>ch1. bindE (cut_loop rest end from to) (\<lambda>result. Inr (ch1 # result)))
              else cut_loop rest end from to))
      else Inr [])"
| "Fragment_cut c from to =
     (if from = 0 \<and> to = Fragment_size c then Inr c
      else if to > from then cut_loop c 0 from to
      else Inr [])"
| "Node_cut (Node t a c m) from to =
     (if from = 0 \<and> to = Fragment_size c then Inr (Node t a c m)
      else bindE (Fragment_cut c from to) (\<lambda>c1. Inr (Node_copy (Node t a c m) c1)))"
| "Node_cut (TextNode t a s m) from to =
     (if from = 0 \<and> to = int (length s) then Inr (TextNode t a s m)
      else withText (TextNode t a s m) (js_slice s from to))"
  by pat_completeness auto
termination
  by (relation "measure (\<lambda>x. case x of
         Inl (cs, pos, from, to) \<Rightarrow> 3 * size_list size cs + 1
       | Inr (Inl (c, from, to)) \<Rightarrow> 3 * size_list size c + 2
       | Inr (Inr (n, from, to)) \<Rightarrow> 3 * size n)") auto

declare cut_loop.simps [simp del]

text \<open>\<open>Fragment.append\<close>.\<close>

definition Fragment_append :: "Node list \<Rightarrow> Node list \<Rightarrow> error + Node list" where
  "Fragment_append this other =
     (if Fragment_size other = 0 then Inr this
      else if Fragment_size this = 0 then Inr other
      else
        (let last1 = last this; first = hd other in
         if isText last1 \<and> sameMarkup last1 first then
           bindE (withText last1 (text_or_undefined last1 @ text_or_undefined first))
             (\<lambda>joined. Inr (butlast this @ joined # tl other))
         else Inr (this @ other)))"

text \<open>\<open>Fragment.replaceChild\<close>; reading the size of a missing child is a \<open>TypeError\<close>.\<close>

definition replaceChild :: "Node list \<Rightarrow> nat \<Rightarrow> Node \<Rightarrow> error + Node list" where
  "replaceChild c index node =
     (if index < length c then Inr (c[index := node]) else Inl TypeError)"

section \<open>Content matching (content.ts) and content checks (schema.ts)\<close>

text \<open>
  The \<open>validEnd\<close> flag and the \<open>next\<close> edges of a state. \<open>ContentMatch.empty\<close> is a valid
  end without edges.
\<close>

definition cm_state :: "ContentMatch \<Rightarrow> bool \<times> MatchEdge list" where
  "cm_state m =
     (case m of
        CMEmpty \<Rightarrow> (True, [])
      | CM tab l \<Rightarrow> (case map_of tab l of Some st \<Rightarrow> st | None \<Rightarrow> (False, [])))"

definition validEnd :: "ContentMatch \<Rightarrow> bool" where
  "validEnd m = fst (cm_state m)"

definition cm_next :: "ContentMatch \<Rightarrow> MatchEdge list" where
  "cm_next m = snd (cm_state m)"

text \<open>\<open>matchType\<close>: the target of the first edge for the type, or \<open>null\<close>.\<close>

definition matchType :: "ContentMatch \<Rightarrow> NodeType \<Rightarrow> ContentMatch option" where
  "matchType m t =
     (case find (\<lambda>e. fst e = nt_name t) (cm_next m) of
        None \<Rightarrow> None
      | Some e \<Rightarrow> (case m of CMEmpty \<Rightarrow> None | CM tab l \<Rightarrow> Some (CM tab (snd e))))"

text \<open>
  \<open>matchFragment(frag, start = 0, end = frag.childCount)\<close>: the loop stops at the first
  child that does not match; \<open>frag.child(i)\<close> throws out of range.
\<close>

function matchFragment_loop ::
  "ContentMatch option \<Rightarrow> Node list \<Rightarrow> nat \<Rightarrow> nat \<Rightarrow> error + ContentMatch option"
where
  "matchFragment_loop cur frag i e =
     (case cur of
        None \<Rightarrow> Inr None
      | Some c \<Rightarrow>
          if i < e then
            bindE (Fragment_child frag i) (\<lambda>ch.
              matchFragment_loop (matchType c (node_type ch)) frag (i + 1) e)
          else Inr cur)"
  by pat_completeness auto
termination
  by (relation "measure (\<lambda>(cur, frag, i, e). e - i)") auto

declare matchFragment_loop.simps [simp del]

definition matchFragment ::
  "ContentMatch \<Rightarrow> Node list \<Rightarrow> nat \<Rightarrow> nat \<Rightarrow> error + ContentMatch option" where
  "matchFragment this frag start e = matchFragment_loop (Some this) frag start e"

text \<open>\<open>ContentMatch.compatible\<close>: the two states have an edge for a common type.\<close>

definition compatible :: "ContentMatch \<Rightarrow> ContentMatch \<Rightarrow> bool" where
  "compatible this other =
     list_ex (\<lambda>e. list_ex (\<lambda>e'. fst e = fst e') (cm_next other)) (cm_next this)"

definition compatibleContent :: "NodeType \<Rightarrow> NodeType \<Rightarrow> bool" where
  "compatibleContent this other =
     (this = other \<or> compatible (contentMatch this) (contentMatch other))"

definition allowsMarkType :: "NodeType \<Rightarrow> MarkType \<Rightarrow> bool" where
  "allowsMarkType t mt =
     (case markSet t of None \<Rightarrow> True | Some ms \<Rightarrow> mt_name mt \<in> set ms)"

definition allowsMarks :: "NodeType \<Rightarrow> Mark list \<Rightarrow> bool" where
  "allowsMarks t ms =
     (case markSet t of
        None \<Rightarrow> True
      | Some _ \<Rightarrow> list_all (\<lambda>m. allowsMarkType t (mark_type m)) ms)"

text \<open>\<open>NodeType.validContent\<close> and \<open>NodeType.checkContent\<close>, which throws a \<open>RangeError\<close>.\<close>

definition validContent :: "NodeType \<Rightarrow> Node list \<Rightarrow> error + bool" where
  "validContent t c =
     bindE (matchFragment (contentMatch t) c 0 (length c)) (\<lambda>result.
       case result of
         None \<Rightarrow> Inr False
       | Some r \<Rightarrow>
           if \<not> validEnd r then Inr False
           else Inr (list_all (\<lambda>ch. allowsMarks t (node_marks ch)) c))"

definition checkContent :: "NodeType \<Rightarrow> Node list \<Rightarrow> error + unit" where
  "checkContent t c =
     bindE (validContent t c) (\<lambda>ok.
       if ok then Inr () else Inl (RangeError (''Invalid content for node '' @ nt_name t)))"

section \<open>Accessors of a resolved position (resolvedpos.ts)\<close>

text \<open>
  Reading the path outside its bounds gives \<open>undefined\<close>, which is \<open>None\<close> here; where
  the source then reads a property of it, the model returns \<open>TypeError\<close>.
\<close>

definition defined :: "'a option \<Rightarrow> error + 'a" where
  "defined x = (case x of None \<Rightarrow> Inl TypeError | Some v \<Rightarrow> Inr v)"

definition resolveDepth :: "ResolvedPos \<Rightarrow> int \<Rightarrow> int" where
  "resolveDepth r val = (if val < 0 then depth r + val else val)"

definition path_at :: "ResolvedPos \<Rightarrow> int \<Rightarrow> (Node \<times> nat \<times> int) option" where
  "path_at r d =
     (if 0 \<le> d \<and> d < int (length (rp_path r)) then Some (rp_path r ! nat d) else None)"

definition rp_node :: "ResolvedPos \<Rightarrow> int \<Rightarrow> Node option" where
  "rp_node r val = map_option fst (path_at r (resolveDepth r val))"

definition rp_index :: "ResolvedPos \<Rightarrow> int \<Rightarrow> nat option" where
  "rp_index r val = map_option (\<lambda>x. fst (snd x)) (path_at r (resolveDepth r val))"

definition parent :: "ResolvedPos \<Rightarrow> Node option" where
  "parent r = rp_node r (depth r)"

text \<open>\<open>textOffset\<close> is \<open>this.pos - this.path[this.path.length - 1]\<close>.\<close>

definition textOffset :: "ResolvedPos \<Rightarrow> int option" where
  "textOffset r =
     (if rp_path r = [] then None else Some (rp_pos r - snd (snd (last (rp_path r)))))"

text \<open>A number used as a condition: \<open>undefined\<close>, \<open>NaN\<close> and 0 are false.\<close>

definition truthy_num :: "int option \<Rightarrow> bool" where
  "truthy_num x = (case x of None \<Rightarrow> False | Some v \<Rightarrow> v \<noteq> 0)"

text \<open>\<open>nodeAfter\<close> and \<open>nodeBefore\<close>; the result \<open>null\<close> is \<open>None\<close>.\<close>

definition nodeAfter :: "ResolvedPos \<Rightarrow> error + Node option" where
  "nodeAfter r =
     bindE (defined (parent r)) (\<lambda>par.
       case rp_index r (depth r) of
         None \<Rightarrow> Inl (RangeError ''Index out of range'')
       | Some index \<Rightarrow>
           if index = length (node_content par) then Inr None
           else bindE (Fragment_child (node_content par) index) (\<lambda>ch.
             if truthy_num (textOffset r) then
               bindE (Node_cut ch (the (textOffset r))
                        (case ch of TextNode t a s m \<Rightarrow> int (length s)
                                  | Node t a c m \<Rightarrow> Fragment_size c))
                 (\<lambda>n. Inr (Some n))
             else Inr (Some ch)))"

definition nodeBefore :: "ResolvedPos \<Rightarrow> error + Node option" where
  "nodeBefore r =
     (if truthy_num (textOffset r) then
        bindE (defined (parent r)) (\<lambda>par.
          case rp_index r (depth r) of
            None \<Rightarrow> Inl (RangeError ''Index out of range'')
          | Some index \<Rightarrow>
              bindE (Fragment_child (node_content par) index) (\<lambda>ch.
                bindE (Node_cut ch 0 (the (textOffset r))) (\<lambda>n. Inr (Some n))))
      else
        (case rp_index r (depth r) of
           None \<Rightarrow> Inl TypeError
         | Some index \<Rightarrow>
             if index = 0 then Inr None
             else bindE (defined (parent r)) (\<lambda>par.
               bindE (Fragment_child (node_content par) (index - 1)) (\<lambda>ch. Inr (Some ch)))))"

section \<open>Slices and the replace algorithm (replace.ts)\<close>

record Slice =
  slice_content :: "Node list"
  openStart :: int
  openEnd :: int

definition Slice_empty :: Slice where
  "Slice_empty = \<lparr>slice_content = [], openStart = 0, openEnd = 0\<rparr>"

definition Slice_size :: "Slice \<Rightarrow> int" where
  "Slice_size s = Fragment_size (slice_content s) - openStart s - openEnd s"

text \<open>
  \<open>checkJoin(main, sub)\<close> throws a \<open>ReplaceError\<close>; \<open>joinable\<close> returns the node of
  \<open>$before\<close> at the depth.
\<close>

definition checkJoin :: "Node \<Rightarrow> Node \<Rightarrow> error + unit" where
  "checkJoin main sub =
     (if \<not> compatibleContent (node_type sub) (node_type main) then
        Inl (ReplaceError (''Cannot join '' @ nt_name (node_type sub) @ '' onto ''
                            @ nt_name (node_type main)))
      else Inr ())"

definition joinable :: "ResolvedPos \<Rightarrow> ResolvedPos \<Rightarrow> int \<Rightarrow> error + Node" where
  "joinable rbefore rafter d =
     bindE (defined (rp_node rafter d)) (\<lambda>sub.
       bindE (defined (rp_node rbefore d)) (\<lambda>node.
         bindE (checkJoin node sub) (\<lambda>_. Inr node)))"

text \<open>
  \<open>addNode(child, target)\<close> changes the array \<open>target\<close>; the model returns the new
  array.
\<close>

definition addNode :: "Node \<Rightarrow> Node list \<Rightarrow> error + Node list" where
  "addNode ch target =
     (if target \<noteq> [] \<and> isText ch \<and> sameMarkup ch (last target) then
        bindE (withText ch (text_or_undefined (last target) @ text_or_undefined ch))
          (\<lambda>joined. Inr (butlast target @ [joined]))
      else Inr (target @ [ch]))"

text \<open>The loop \<open>for (let i = startIndex; i < endIndex; i++) addNode(node.child(i), target)\<close>.\<close>

function addRange_loop :: "Node \<Rightarrow> nat \<Rightarrow> nat \<Rightarrow> Node list \<Rightarrow> error + Node list" where
  "addRange_loop node i endIndex target =
     (if i < endIndex then
        bindE (Fragment_child (node_content node) i) (\<lambda>ch.
          bindE (addNode ch target) (\<lambda>target1.
            addRange_loop node (i + 1) endIndex target1))
      else Inr target)"
  by pat_completeness auto
termination
  by (relation "measure (\<lambda>(node, i, endIndex, target). endIndex - i)") auto

declare addRange_loop.simps [simp del]

text \<open>
  \<open>addRange($start, $end, depth, target)\<close>; either position may be \<open>null\<close>. An index
  that is \<open>undefined\<close> makes the comparison of the loop false. A \<open>null\<close> node handed to
  \<open>addNode\<close> is a \<open>TypeError\<close>.
\<close>

definition addRange ::
  "ResolvedPos option \<Rightarrow> ResolvedPos option \<Rightarrow> int \<Rightarrow> Node list \<Rightarrow> error + Node list" where
  "addRange start end d target =
     bindE (case (case end of Some e \<Rightarrow> Some e | None \<Rightarrow> start) of
              None \<Rightarrow> Inl TypeError
            | Some r \<Rightarrow> Inr (rp_node r d)) (\<lambda>node.
     bindE (case end of
              Some e \<Rightarrow> Inr (rp_index e d)
            | None \<Rightarrow> bindE (defined node) (\<lambda>n. Inr (Some (length (node_content n)))))
       (\<lambda>endIndex.
     bindE (case start of
              None \<Rightarrow> Inr (Some 0, target)
            | Some s \<Rightarrow>
                if depth s > d then Inr (map_option Suc (rp_index s d), target)
                else if truthy_num (textOffset s) then
                  bindE (nodeAfter s) (\<lambda>na.
                    bindE (defined na) (\<lambda>n.
                      bindE (addNode n target) (\<lambda>target1.
                        Inr (map_option Suc (rp_index s d), target1))))
                else Inr (rp_index s d, target))
       (\<lambda>(startIndex, target1).
     bindE (case (startIndex, endIndex) of
              (Some i, Some e) \<Rightarrow>
                if i < e then bindE (defined node) (\<lambda>n. addRange_loop n i e target1)
                else Inr target1
            | _ \<Rightarrow> Inr target1) (\<lambda>target2.
       case end of
         None \<Rightarrow> Inr target2
       | Some e \<Rightarrow>
           if depth e = d \<and> truthy_num (textOffset e) then
             bindE (nodeBefore e) (\<lambda>nb.
               bindE (defined nb) (\<lambda>n. addNode n target2))
           else Inr target2))))"

text \<open>\<open>close(node, content)\<close>: the content check, then the copy.\<close>

definition close :: "Node \<Rightarrow> Node list \<Rightarrow> error + Node" where
  "close node c = bindE (checkContent (node_type node) c) (\<lambda>_. Inr (Node_copy node c))"

function replaceTwoWay :: "ResolvedPos \<Rightarrow> ResolvedPos \<Rightarrow> int \<Rightarrow> error + Node list" where
  "replaceTwoWay from to d =
     bindE (addRange None (Some from) d []) (\<lambda>content1.
       bindE
         (if depth from > d then
            bindE (joinable from to (d + 1)) (\<lambda>type.
              bindE (replaceTwoWay from to (d + 1)) (\<lambda>inner.
                bindE (close type inner) (\<lambda>closed. addNode closed content1)))
          else Inr content1)
         (\<lambda>content2. addRange (Some to) None d content2))"
  by pat_completeness auto
termination
  by (relation "measure (\<lambda>(from, to, d). nat (depth from - d))") auto

declare replaceTwoWay.simps [simp del]

text \<open>
  \<open>replaceThreeWay\<close>. \<open>openStart\<close> and \<open>openEnd\<close> are \<open>false\<close> (\<open>None\<close>) or the joinable
  node.
\<close>

function replaceThreeWay ::
  "ResolvedPos \<Rightarrow> ResolvedPos \<Rightarrow> ResolvedPos \<Rightarrow> ResolvedPos \<Rightarrow> int \<Rightarrow> error + Node list"
where
  "replaceThreeWay from start end to d =
     bindE (if depth from > d then bindE (joinable from start (d + 1)) (\<lambda>n. Inr (Some n))
            else Inr None) (\<lambda>oStart.
     bindE (if depth to > d then bindE (joinable end to (d + 1)) (\<lambda>n. Inr (Some n))
            else Inr None) (\<lambda>oEnd.
     bindE (addRange None (Some from) d []) (\<lambda>content1.
     bindE
       (if oStart \<noteq> None \<and> oEnd \<noteq> None \<and> rp_index start d = rp_index end d then
          bindE (checkJoin (the oStart) (the oEnd)) (\<lambda>_.
            bindE (replaceThreeWay from start end to (d + 1)) (\<lambda>inner.
              bindE (close (the oStart) inner) (\<lambda>closed. addNode closed content1)))
        else
          bindE (case oStart of
                   None \<Rightarrow> Inr content1
                 | Some os \<Rightarrow>
                     bindE (replaceTwoWay from start (d + 1)) (\<lambda>inner.
                       bindE (close os inner) (\<lambda>closed. addNode closed content1)))
            (\<lambda>content2.
               bindE (addRange (Some start) (Some end) d content2) (\<lambda>content3.
                 case oEnd of
                   None \<Rightarrow> Inr content3
                 | Some oe \<Rightarrow>
                     bindE (replaceTwoWay end to (d + 1)) (\<lambda>inner.
                       bindE (close oe inner) (\<lambda>closed. addNode closed content3)))))
       (\<lambda>content4. addRange (Some to) None d content4))))"
  by pat_completeness auto
termination
  by (relation "measure (\<lambda>(from, start, end, to, d). nat (depth from - d))")
    (auto split: if_splits)

declare replaceThreeWay.simps [simp del]

text \<open>
  \<open>prepareSliceForReplace(slice, $along)\<close>: the slice wrapped in copies of the ancestors
  of \<open>$along\<close>, and the two ends of the slice resolved in it. \<open>wrap_loop\<close> is the loop
  \<open>for (let i = extra - 1; i >= 0; i--)\<close>.
\<close>

function wrap_loop :: "ResolvedPos \<Rightarrow> int \<Rightarrow> Node \<Rightarrow> error + Node" where
  "wrap_loop along i node =
     (if i \<ge> 0 then
        bindE (defined (rp_node along i)) (\<lambda>anc. wrap_loop along (i - 1) (Node_copy anc [node]))
      else Inr node)"
  by pat_completeness auto
termination
  by (relation "measure (\<lambda>(along, i, node). nat (i + 1))") auto

declare wrap_loop.simps [simp del]

definition prepareSliceForReplace ::
  "Slice \<Rightarrow> ResolvedPos \<Rightarrow> error + (ResolvedPos \<times> ResolvedPos)" where
  "prepareSliceForReplace slice along =
     (let extra = depth along - openStart slice in
      bindE (defined (rp_node along extra)) (\<lambda>par.
        bindE (wrap_loop along (extra - 1) (Node_copy par (slice_content slice))) (\<lambda>node.
          bindE (resolve node (openStart slice + extra)) (\<lambda>start.
            bindE (resolve node (Fragment_size (node_content node) - openEnd slice - extra))
              (\<lambda>end. Inr (start, end))))))"

function replaceOuter :: "ResolvedPos \<Rightarrow> ResolvedPos \<Rightarrow> Slice \<Rightarrow> int \<Rightarrow> error + Node" where
  "replaceOuter from to slice d =
     (if rp_index from d = rp_index to d \<and> d < depth from - openStart slice then
        bindE (replaceOuter from to slice (d + 1)) (\<lambda>inner.
          bindE (defined (rp_node from d)) (\<lambda>node.
            bindE (case rp_index from d of
                     None \<Rightarrow> Inl TypeError
                   | Some index \<Rightarrow> replaceChild (node_content node) index inner)
              (\<lambda>c. Inr (Node_copy node c))))
      else if Fragment_size (slice_content slice) = 0 then
        bindE (replaceTwoWay from to d) (\<lambda>c.
          bindE (defined (rp_node from d)) (\<lambda>node. close node c))
      else if openStart slice = 0 \<and> openEnd slice = 0 \<and> depth from = d \<and> depth to = d then
        bindE (defined (parent from)) (\<lambda>par.
          bindE (Fragment_cut (node_content par) 0 (parentOffset from)) (\<lambda>c1.
            bindE (Fragment_append c1 (slice_content slice)) (\<lambda>c2.
              bindE (Fragment_cut (node_content par) (parentOffset to)
                       (Fragment_size (node_content par))) (\<lambda>c3.
                bindE (Fragment_append c2 c3) (\<lambda>c4. close par c4)))))
      else
        bindE (prepareSliceForReplace slice from) (\<lambda>(start, end).
          bindE (replaceThreeWay from start end to d) (\<lambda>c.
            bindE (defined (rp_node from d)) (\<lambda>node. close node c))))"
  by pat_completeness auto
termination
  by (relation "measure (\<lambda>(from, to, slice, d). nat (depth from - openStart slice - d))") auto

declare replaceOuter.simps [simp del]

definition replace :: "ResolvedPos \<Rightarrow> ResolvedPos \<Rightarrow> Slice \<Rightarrow> error + Node" where
  "replace from to slice =
     (if openStart slice > depth from then
        Inl (ReplaceError ''Inserted content deeper than insertion position'')
      else if depth from - openStart slice \<noteq> depth to - openEnd slice then
        Inl (ReplaceError ''Inconsistent open depths'')
      else replaceOuter from to slice 0)"

text \<open>\<open>Node.replace(from, to, slice)\<close> resolves \<open>from\<close>, then \<open>to\<close>.\<close>

definition Node_replace :: "Node \<Rightarrow> int \<Rightarrow> int \<Rightarrow> Slice \<Rightarrow> error + Node" where
  "Node_replace this from to slice =
     bindE (Node_resolve this from) (\<lambda>rfrom.
       bindE (Node_resolve this to) (\<lambda>rto. replace rfrom rto slice))"

section \<open>Steps (step.ts, replace_step.ts)\<close>

text \<open>
  A \<open>StepResult\<close> holds the new document or the message of the failure, the other
  field being \<open>null\<close>.
\<close>

record StepResult =
  sr_doc :: "Node option"
  failed :: "string option"

definition StepResult_ok :: "Node \<Rightarrow> StepResult" where
  "StepResult_ok d = \<lparr>sr_doc = Some d, failed = None\<rparr>"

definition StepResult_fail :: "string \<Rightarrow> StepResult" where
  "StepResult_fail message = \<lparr>sr_doc = None, failed = Some message\<rparr>"

text \<open>
  \<open>StepResult.fromReplace\<close>: the \<open>catch\<close> turns a \<open>ReplaceError\<close> into a failed result
  and throws every other exception again.
\<close>

definition fromReplace :: "Node \<Rightarrow> int \<Rightarrow> int \<Rightarrow> Slice \<Rightarrow> error + StepResult" where
  "fromReplace d from to slice =
     (case Node_replace d from to slice of
        Inr d1 \<Rightarrow> Inr (StepResult_ok d1)
      | Inl (ReplaceError message) \<Rightarrow> Inr (StepResult_fail message)
      | Inl e \<Rightarrow> Inl e)"

record ReplaceStep =
  step_from :: int
  step_to :: int
  step_slice :: Slice
  step_structure :: bool

text \<open>\<open>ResolvedPos.indexAfter(depth)\<close>.\<close>

definition indexAfter :: "ResolvedPos \<Rightarrow> int \<Rightarrow> nat option" where
  "indexAfter r val =
     (let d = resolveDepth r val in
      map_option (\<lambda>i. i + (if d = depth r \<and> \<not> truthy_num (textOffset r) then 0 else 1))
        (rp_index r d))"

text \<open>The two loops of \<open>contentBetween\<close>.\<close>

function cb_up :: "ResolvedPos \<Rightarrow> int \<Rightarrow> int \<Rightarrow> error + (int \<times> int)" where
  "cb_up r dist d =
     (if dist > 0 \<and> d > 0 then
        bindE (defined (rp_node r d)) (\<lambda>node.
          if indexAfter r d = Some (length (node_content node)) then cb_up r (dist - 1) (d - 1)
          else Inr (dist, d))
      else Inr (dist, d))"
  by pat_completeness auto
termination
  by (relation "measure (\<lambda>(r, dist, d). nat dist)") auto

declare cb_up.simps [simp del]

function cb_down :: "Node option \<Rightarrow> int \<Rightarrow> bool" where
  "cb_down next dist =
     (if dist > 0 then
        (case next of
           None \<Rightarrow> True
         | Some n \<Rightarrow> if isLeaf n then True
                     else cb_down (case node_content n of [] \<Rightarrow> None | c # cs \<Rightarrow> Some c)
                            (dist - 1))
      else False)"
  by pat_completeness auto
termination
  by (relation "measure (\<lambda>(next, dist). nat dist)") auto

declare cb_down.simps [simp del]

definition contentBetween :: "Node \<Rightarrow> int \<Rightarrow> int \<Rightarrow> error + bool" where
  "contentBetween d from to =
     bindE (Node_resolve d from) (\<lambda>r.
       bindE (cb_up r (to - from) (depth r)) (\<lambda>(dist, dp).
         if dist > 0 then
           bindE (defined (rp_node r dp)) (\<lambda>node.
             Inr (cb_down (case indexAfter r dp of
                             None \<Rightarrow> None
                           | Some i \<Rightarrow> maybeChild (node_content node) i) dist))
         else Inr False))"

text \<open>\<open>ReplaceStep.apply\<close> and \<open>ReplaceStep.getMap\<close>.\<close>

definition ReplaceStep_apply :: "ReplaceStep \<Rightarrow> Node \<Rightarrow> error + StepResult" where
  "ReplaceStep_apply s d =
     bindE (if step_structure s then contentBetween d (step_from s) (step_to s) else Inr False)
       (\<lambda>overwrites.
          if overwrites then Inr (StepResult_fail ''Structure replace would overwrite content'')
          else fromReplace d (step_from s) (step_to s) (step_slice s))"

definition ReplaceStep_getMap :: "ReplaceStep \<Rightarrow> StepMap" where
  "ReplaceStep_getMap s =
     new_StepMap [step_from s, step_to s - step_from s, Slice_size (step_slice s)] False"

definition isReplaceError :: "error \<Rightarrow> bool" where
  "isReplaceError e = (case e of ReplaceError message \<Rightarrow> True | _ \<Rightarrow> False)"

section \<open>Building fragments (fragment.ts)\<close>

text \<open>
  The loop of \<open>Fragment.fromArray\<close>: \<open>pre\<close> is \<open>array.slice(0, i)\<close>, and \<open>joined\<close> is \<open>None\<close>
  while the source's \<open>joined\<close> is undefined.
\<close>

fun fromArray_loop :: "Node list \<Rightarrow> Node list \<Rightarrow> Node list option \<Rightarrow> error + Node list" where
  "fromArray_loop pre [] joined = Inr (case joined of None \<Rightarrow> pre | Some j \<Rightarrow> j)"
| "fromArray_loop pre (node # rest) joined =
     (if pre \<noteq> [] \<and> isText node \<and> sameMarkup (last pre) node then
        (let j = (case joined of None \<Rightarrow> pre | Some j \<Rightarrow> j) in
         bindE (withText node (text_or_undefined (last j) @ text_or_undefined node))
           (\<lambda>n. fromArray_loop (pre @ [node]) rest (Some (butlast j @ [n]))))
      else fromArray_loop (pre @ [node]) rest (map_option (\<lambda>j. j @ [node]) joined))"

definition fromArray :: "Node list \<Rightarrow> error + Node list" where
  "fromArray array = (if array = [] then Inr [] else fromArray_loop [] array None)"

text \<open>
  What \<open>Fragment.from\<close> is given: \<open>null\<close> or \<open>undefined\<close>, a fragment, an array of nodes,
  a node, or anything else.
\<close>

datatype FragmentSource =
    FromNull
  | FromFragment "Node list"
  | FromArray "Node list"
  | FromNode Node
  | FromOther

definition Fragment_from :: "FragmentSource \<Rightarrow> error + Node list" where
  "Fragment_from nodes =
     (case nodes of
        FromNull \<Rightarrow> Inr []
      | FromFragment f \<Rightarrow> Inr f
      | FromArray a \<Rightarrow> fromArray a
      | FromNode n \<Rightarrow> Inr [n]
      | FromOther \<Rightarrow> Inl (RangeError ''Can not convert to a Fragment''))"

text \<open>
  The invariant of a fragment: no two neighbours are text nodes with the same markup.
\<close>

fun merged :: "Node list \<Rightarrow> bool" where
  "merged [] = True"
| "merged [n] = True"
| "merged (a # b # ns) = (\<not> (isText a \<and> isText b \<and> sameMarkup a b) \<and> merged (b # ns))"

section \<open>JSON (node.ts, mark.ts, fragment.ts, schema.ts)\<close>

text \<open>
  A JSON value is the plain JavaScript value that \<open>toJSON\<close> returns and \<open>fromJSON\<close> is
  given. Reading a missing property gives \<open>undefined\<close>, which is \<open>None\<close>; the model sees
  the own properties of plain objects.
\<close>

definition js_prop :: "jsval option \<Rightarrow> string \<Rightarrow> jsval option" where
  "js_prop v k = (case v of Some (JObj kvs) \<Rightarrow> map_of kvs k | _ \<Rightarrow> None)"

definition falsy :: "jsval option \<Rightarrow> bool" where
  "falsy v =
     (case v of
        None \<Rightarrow> True
      | Some JNull \<Rightarrow> True
      | Some (JBool b) \<Rightarrow> \<not> b
      | Some (JNum n) \<Rightarrow> n = 0
      | Some (JStr s) \<Rightarrow> s = []
      | Some _ \<Rightarrow> False)"

text \<open>Decimal digits of a number, and \<open>String(value)\<close>, which names a property.\<close>

fun digits :: "nat \<Rightarrow> string" where
  "digits n =
     (if n < 10 then [char_of (48 + n)] else digits (n div 10) @ [char_of (48 + n mod 10)])"

declare digits.simps [simp del]

fun js_join :: "string list \<Rightarrow> string" where
  "js_join [] = []"
| "js_join [s] = s"
| "js_join (s # t # ss) = s @ '','' @ js_join (t # ss)"

fun js_toString :: "jsval \<Rightarrow> string" where
  "js_toString JNull = ''null''"
| "js_toString (JBool b) = (if b then ''true'' else ''false'')"
| "js_toString (JNum n) = (if n < 0 then ''-'' @ digits (nat (- n)) else digits (nat n))"
| "js_toString (JStr s) = s"
| "js_toString (JArr xs) = js_join (map (\<lambda>x. if x = JNull then [] else js_toString x) xs)"
| "js_toString (JObj kvs) = ''[object Object]''"

definition toKey :: "jsval option \<Rightarrow> string" where
  "toKey v = (case v of None \<Rightarrow> ''undefined'' | Some x \<Rightarrow> js_toString x)"

text \<open>\<open>typeof\<close>, with \<open>null\<close> named \<open>null\<close> as \<open>validateType\<close> does.\<close>

definition type_name :: "jsval option \<Rightarrow> string" where
  "type_name v =
     (case v of
        None \<Rightarrow> ''undefined''
      | Some JNull \<Rightarrow> ''null''
      | Some (JBool b) \<Rightarrow> ''boolean''
      | Some (JNum n) \<Rightarrow> ''number''
      | Some (JStr s) \<Rightarrow> ''string''
      | Some _ \<Rightarrow> ''object'')"

text \<open>
  \<open>defaultAttrs\<close>: the defaults of the attributes, or \<open>null\<close> when one has none.
\<close>

fun defaultAttrs :: "(string \<times> Attribute) list \<Rightarrow> Attrs option" where
  "defaultAttrs [] = Some []"
| "defaultAttrs ((name, attr) # rest) =
     (if \<not> hasDefault attr then None
      else map_option (\<lambda>ds. (name, default_value attr) # ds) (defaultAttrs rest))"

text \<open>
  \<open>computeAttrs(attrs, value)\<close>: \<open>given\<close> is \<open>value && value[name]\<close>, and the default
  stands in when it is \<open>undefined\<close>.
\<close>

fun computeAttrs :: "(string \<times> Attribute) list \<Rightarrow> jsval option \<Rightarrow> error + Attrs" where
  "computeAttrs [] v = Inr []"
| "computeAttrs ((name, attr) # rest) v =
     bindE (case (if falsy v then v else js_prop v name) of
              Some given \<Rightarrow> Inr given
            | None \<Rightarrow> if hasDefault attr then Inr (default_value attr)
                      else Inl (RangeError (''No value supplied for attribute '' @ name)))
       (\<lambda>given. bindE (computeAttrs rest v) (\<lambda>built. Inr ((name, given) # built)))"

text \<open>\<open>checkAttrs(attrs, values, type, name)\<close>.\<close>

definition checkAttrs :: "(string \<times> Attribute) list \<Rightarrow> Attrs \<Rightarrow> error + unit" where
  "checkAttrs attrs vals =
     (if \<not> list_all (\<lambda>name. hasKey name attrs) (map fst vals) then
        Inl (RangeError ''Unsupported attribute'')
      else if \<not> list_all (\<lambda>(name, attr).
                   case validate attr of
                     None \<Rightarrow> True
                   | Some types \<Rightarrow> type_name (map_of vals name) \<in> set types) attrs then
        Inl (RangeError ''Expected value of another type for attribute'')
      else Inr ())"

text \<open>A schema: its node types and its mark types by name.\<close>

record Schema =
  schema_nodes :: "(string \<times> NodeType) list"
  schema_marks :: "(string \<times> MarkType) list"

text \<open>\<open>Mark.setFrom\<close> for an array or \<open>undefined\<close>: a stable sort by rank.\<close>

definition setFrom :: "Mark list option \<Rightarrow> Mark list" where
  "setFrom ms =
     (case ms of None \<Rightarrow> [] | Some l \<Rightarrow> sort_key (\<lambda>m. mt_rank (mark_type m)) l)"

text \<open>\<open>MarkType.create\<close> and \<open>Mark.fromJSON\<close>.\<close>

definition MarkType_create :: "MarkType \<Rightarrow> jsval option \<Rightarrow> error + Mark" where
  "MarkType_create t attrs =
     (case (if falsy attrs then defaultAttrs (mt_attrs t) else None) of
        Some defaults \<Rightarrow> Inr (Mark t defaults)
      | None \<Rightarrow> bindE (computeAttrs (mt_attrs t) attrs) (\<lambda>built. Inr (Mark t built)))"

definition Mark_fromJSON :: "Schema \<Rightarrow> jsval option \<Rightarrow> error + Mark" where
  "Mark_fromJSON schema json =
     (if falsy json then Inl (RangeError ''Invalid input for Mark.fromJSON'')
      else case map_of (schema_marks schema) (toKey (js_prop json ''type'')) of
             None \<Rightarrow> Inl (RangeError ''There is no mark type in this schema'')
           | Some t \<Rightarrow>
               bindE (MarkType_create t (js_prop json ''attrs'')) (\<lambda>mark.
                 bindE (checkAttrs (mt_attrs t) (mark_attrs mark)) (\<lambda>_. Inr mark)))"

text \<open>\<open>Array.prototype.map\<close> with a function that can throw.\<close>

fun mapE :: "('a \<Rightarrow> error + 'b) \<Rightarrow> 'a list \<Rightarrow> error + 'b list" where
  "mapE f [] = Inr []"
| "mapE f (x # xs) = bindE (f x) (\<lambda>y. bindE (mapE f xs) (\<lambda>ys. Inr (y # ys)))"

lemma mapE_cong [fundef_cong]:
  "xs = ys \<Longrightarrow> (\<And>x. x \<in> set ys \<Longrightarrow> f x = g x) \<Longrightarrow> mapE f xs = mapE g ys"
  by (induction ys arbitrary: xs) (auto simp: bindE_def split: sum.splits)

text \<open>
  \<open>NodeType.computeAttrs\<close>, \<open>NodeType.create\<close> (which refuses the text type) and
  \<open>Schema.text\<close>. The constructor of \<open>Schema\<close> refuses a text type with attributes, so its
  \<open>defaultAttrs\<close> is the empty object.
\<close>

definition NodeType_computeAttrs :: "NodeType \<Rightarrow> jsval option \<Rightarrow> error + Attrs" where
  "NodeType_computeAttrs t attrs =
     (case (if falsy attrs then defaultAttrs (nt_attrs t) else None) of
        Some defaults \<Rightarrow> Inr defaults
      | None \<Rightarrow> computeAttrs (nt_attrs t) attrs)"

definition NodeType_create ::
  "NodeType \<Rightarrow> jsval option \<Rightarrow> FragmentSource \<Rightarrow> Mark list option \<Rightarrow> error + Node" where
  "NodeType_create t attrs c ms =
     (if type_isText t then Inl (PlainError ''NodeType.create cannot construct text nodes'')
      else bindE (NodeType_computeAttrs t attrs) (\<lambda>a.
        bindE (Fragment_from c) (\<lambda>f. Inr (Node t a f (setFrom ms)))))"

definition Schema_text :: "Schema \<Rightarrow> string \<Rightarrow> Mark list option \<Rightarrow> error + Node" where
  "Schema_text schema txt ms =
     (case map_of (schema_nodes schema) ''text'' of
        None \<Rightarrow> Inl TypeError
      | Some t \<Rightarrow>
          if txt = [] then Inl (RangeError ''Empty text nodes are not allowed'')
          else Inr (TextNode t (case defaultAttrs (nt_attrs t) of Some a \<Rightarrow> a | None \<Rightarrow> []) txt
                      (setFrom ms)))"

definition nodeType :: "Schema \<Rightarrow> string \<Rightarrow> error + NodeType" where
  "nodeType schema name =
     (case map_of (schema_nodes schema) name of
        None \<Rightarrow> Inl (RangeError (''Unknown node type: '' @ name))
      | Some t \<Rightarrow> Inr t)"

text \<open>\<open>json.type == "text"\<close>: a string, or an array whose string form is that string.\<close>

definition loosely_text :: "jsval option \<Rightarrow> bool" where
  "loosely_text v =
     (case v of
        Some (JStr s) \<Rightarrow> s = ''text''
      | Some (JArr xs) \<Rightarrow> js_toString (JArr xs) = ''text''
      | _ \<Rightarrow> False)"

lemma size_prop_less: "js_prop (Some json) k = Some v \<Longrightarrow> size v < size json"
  by (cases json) (auto simp: js_prop_def dest: size_map_of_less)

text \<open>
  \<open>Node.fromJSON\<close> and \<open>Fragment.fromJSON\<close>, which hands every element of the array to
  \<open>schema.nodeFromJSON\<close> and builds the fragment from the results as they are.
\<close>

function Node_fromJSON :: "Schema \<Rightarrow> jsval option \<Rightarrow> error + Node" where
  "Node_fromJSON schema json =
     (if falsy json then Inl (RangeError ''Invalid input for Node.fromJSON'')
      else
        bindE (if falsy (js_prop json ''marks'') then Inr None
               else case js_prop json ''marks'' of
                      Some (JArr ms) \<Rightarrow>
                        bindE (mapE (\<lambda>m. Mark_fromJSON schema (Some m)) ms) (\<lambda>l. Inr (Some l))
                    | _ \<Rightarrow> Inl (RangeError ''Invalid mark data for Node.fromJSON''))
          (\<lambda>marks.
             if loosely_text (js_prop json ''type'') then
               (case js_prop json ''text'' of
                  Some (JStr s) \<Rightarrow> Schema_text schema s marks
                | _ \<Rightarrow> Inl (RangeError ''Invalid text node in JSON''))
             else
               bindE (if falsy (js_prop json ''content'') then Inr []
                      else case js_prop json ''content'' of
                             Some (JArr xs) \<Rightarrow> mapE (\<lambda>x. Node_fromJSON schema (Some x)) xs
                           | _ \<Rightarrow> Inl (RangeError ''Invalid input for Fragment.fromJSON''))
                 (\<lambda>content.
                    bindE (nodeType schema (toKey (js_prop json ''type''))) (\<lambda>t.
                      bindE (NodeType_create t (js_prop json ''attrs'') (FromFragment content) marks)
                        (\<lambda>node.
                           bindE (checkAttrs (nt_attrs (node_type node)) (node_attrs node))
                             (\<lambda>_. Inr node))))))"
  by pat_completeness auto
termination
proof (relation "measure (\<lambda>(schema, json). case json of None \<Rightarrow> 0 | Some j \<Rightarrow> size j)")
  show "wf (measure (\<lambda>(schema, json). case json of None \<Rightarrow> 0 | Some j \<Rightarrow> size j))"
    by simp
next
  fix schema :: Schema and json :: "jsval option" and marks x2 :: "Mark list option"
    and a xs and x :: jsval
  assume c: "js_prop json ''content'' = Some a" "a = JArr xs" "x \<in> set xs" "\<not> falsy json"
  then obtain j where j: "json = Some j" by (cases json) (auto simp: falsy_def)
  have "size x < size (JArr xs)"
    using c(3) by (induction xs) auto
  moreover have "size (JArr xs) < size j"
    using c(1,2) j size_prop_less [of j "''content''" a] by simp
  ultimately show "((schema, Some x), schema, json)
      \<in> measure (\<lambda>(schema, json). case json of None \<Rightarrow> 0 | Some j \<Rightarrow> size j)"
    using j by simp
qed

declare Node_fromJSON.simps [simp del]

definition Fragment_fromJSON :: "Schema \<Rightarrow> jsval option \<Rightarrow> error + Node list" where
  "Fragment_fromJSON schema v =
     (if falsy v then Inr []
      else case v of
             Some (JArr xs) \<Rightarrow> mapE (\<lambda>x. Node_fromJSON schema (Some x)) xs
           | _ \<Rightarrow> Inl (RangeError ''Invalid input for Fragment.fromJSON''))"

text \<open>\<open>Mark.toJSON\<close>, \<open>Node.toJSON\<close>, \<open>TextNode.toJSON\<close> and \<open>Fragment.toJSON\<close>.\<close>

definition Mark_toJSON :: "Mark \<Rightarrow> jsval" where
  "Mark_toJSON m =
     JObj ((''type'', JStr (mt_name (mark_type m)))
           # (if mark_attrs m \<noteq> [] then [(''attrs'', JObj (mark_attrs m))] else []))"

fun Node_toJSON :: "Node \<Rightarrow> jsval" where
  "Node_toJSON (Node t a c m) =
     JObj ((''type'', JStr (nt_name t))
           # (if a \<noteq> [] then [(''attrs'', JObj a)] else [])
           @ (if Fragment_size c \<noteq> 0
              then [(''content'', if c \<noteq> [] then JArr (map Node_toJSON c) else JNull)] else [])
           @ (if m \<noteq> [] then [(''marks'', JArr (map Mark_toJSON m))] else []))"
| "Node_toJSON (TextNode t a s m) =
     JObj ((''type'', JStr (nt_name t))
           # (if a \<noteq> [] then [(''attrs'', JObj a)] else [])
           @ (if m \<noteq> [] then [(''marks'', JArr (map Mark_toJSON m))] else [])
           @ [(''text'', JStr s)])"

definition Fragment_toJSON :: "Node list \<Rightarrow> jsval" where
  "Fragment_toJSON c = (if c \<noteq> [] then JArr (map Node_toJSON c) else JNull)"

text \<open>The invariant of the loop of \<open>fromArray\<close>.\<close>

definition fromArray_inv :: "Node list \<Rightarrow> Node list option \<Rightarrow> bool" where
  "fromArray_inv pre joined =
     (let j = (case joined of None \<Rightarrow> pre | Some j \<Rightarrow> j)
      in merged j \<and> (pre = []) = (j = [])
         \<and> (pre \<noteq> [] \<longrightarrow> sameMarkup (last pre) (last j)))"

section \<open>Nodes built from a schema\<close>

text \<open>
  What the creation paths of a schema guarantee of a node, as far as JSON needs it.
  Attribute values: \<open>computeAttrs\<close> gives every attribute of the type a value, and
  \<open>checkAttrs\<close> accepts them. A mark has a type of the schema. A mark set is sorted by
  rank (\<open>Mark.setFrom\<close>). A text node has the text type of the schema, the default
  attributes of that type and a string that is not empty (\<open>Schema.text\<close>); any other
  node has a type of the schema that is not the text type (\<open>NodeType.create\<close>).
\<close>

definition built_attrs :: "(string \<times> Attribute) list \<Rightarrow> Attrs \<Rightarrow> bool" where
  "built_attrs spec vals =
     (checkAttrs spec vals = Inr () \<and> list_all (\<lambda>name. hasKey name vals) (map fst spec))"

definition built_mark :: "Schema \<Rightarrow> Mark \<Rightarrow> bool" where
  "built_mark schema m =
     (map_of (schema_marks schema) (mt_name (mark_type m)) = Some (mark_type m)
      \<and> built_attrs (mt_attrs (mark_type m)) (mark_attrs m))"

definition built_marks :: "Schema \<Rightarrow> Mark list \<Rightarrow> bool" where
  "built_marks schema ms = (list_all (built_mark schema) ms \<and> rank_sorted ms)"

fun built_from :: "Schema \<Rightarrow> Node \<Rightarrow> bool" where
  "built_from schema (TextNode t a s m) =
     (map_of (schema_nodes schema) ''text'' = Some t \<and> nt_name t = ''text''
      \<and> defaultAttrs (nt_attrs t) = Some a \<and> s \<noteq> [] \<and> built_marks schema m)"
| "built_from schema (Node t a c m) =
     (map_of (schema_nodes schema) (nt_name t) = Some t \<and> nt_name t \<noteq> ''text''
      \<and> built_attrs (nt_attrs t) a \<and> built_marks schema m
      \<and> list_all (built_from schema) c)"

section \<open>Valid documents\<close>

text \<open>
  A schema-valid tree: every text node has the text type and a string that is not
  empty; every other node has another type, content that its type accepts
  (\<open>NodeType.validContent\<close>), and children of which no two neighbours are text nodes of
  the same markup. A document is a valid node that is not a text node.
\<close>

fun valid_node :: "Node \<Rightarrow> bool" where
  "valid_node (TextNode t a s m) = (type_isText t \<and> s \<noteq> [])"
| "valid_node (Node t a c m) =
     (\<not> type_isText t \<and> validContent t c = Inr True \<and> merged c \<and> list_all valid_node c)"

definition valid_doc :: "Node \<Rightarrow> bool" where
  "valid_doc d = (valid_node d \<and> \<not> isText d)"

text \<open>
  What \<open>resolve\<close> stores in a path for the position \<open>pos\<close>, from the node \<open>node\<close> down: every
  entry but the last holds a node, the index of the child that is the node of the next
  entry, and the offset of that child; the last entry holds the parent of the
  position, and the position is at the start of the child at the index, after the last
  child, or inside the text node at the index.
\<close>

fun good_chain :: "Node \<Rightarrow> int \<Rightarrow> (Node \<times> nat \<times> int) list \<Rightarrow> bool" where
  "good_chain node pos [] = False"
| "good_chain node pos [(n, i, off)] =
     (n = node \<and> i \<le> length (node_content n)
      \<and> (pos - off = 0
          \<or> (i < length (node_content n)
             \<and> (case node_content n ! i of
                   TextNode t a s m \<Rightarrow> 0 < pos - off \<and> pos - off < int (length s)
                 | Node t a c m \<Rightarrow> False))))"
| "good_chain node pos ((n, i, off) # e # es) =
     (n = node \<and> i < length (node_content n) \<and> \<not> isText (node_content n ! i)
      \<and> good_chain (node_content n ! i) pos (e # es))"

section \<open>Example schema\<close>

definition textType :: NodeType where
  "textType = \<lparr>nt_name = ''text'', nt_groups = [''inline''], nt_attrs = [], nt_inline = True,
     contentMatch = CMEmpty, markSet = None\<rparr>"

definition hrType :: NodeType where
  "hrType = \<lparr>nt_name = ''horizontal_rule'', nt_groups = [''block''], nt_attrs = [],
     nt_inline = False, contentMatch = CMEmpty, markSet = Some []\<rparr>"

definition emType :: MarkType where
  "emType = \<lparr>mt_name = ''em'', mt_rank = 0, mt_attrs = [], mt_excluded = [''em'']\<rparr>"

definition strongType :: MarkType where
  "strongType = \<lparr>mt_name = ''strong'', mt_rank = 1, mt_attrs = [], mt_excluded = [''strong'']\<rparr>"

definition linkType :: MarkType where
  "linkType = \<lparr>mt_name = ''link'', mt_rank = 2,
     mt_attrs = [(''href'', \<lparr>hasDefault = False, default_value = JNull, validate = None\<rparr>)],
     mt_excluded = [''link'']\<rparr>"

definition codeType :: MarkType where
  "codeType = \<lparr>mt_name = ''code'', mt_rank = 3, mt_attrs = [],
     mt_excluded = [''em'', ''strong'', ''link'', ''code'']\<rparr>"

definition paragraphType :: NodeType where
  "paragraphType = \<lparr>nt_name = ''paragraph'', nt_groups = [''block''], nt_attrs = [],
     nt_inline = False,
     contentMatch = CM [([2, 1], True, [(''text'', [2, 1])])] [2, 1],
     markSet = None\<rparr>"

definition docType :: NodeType where
  "docType = \<lparr>nt_name = ''doc'', nt_groups = [], nt_attrs = [], nt_inline = False,
     contentMatch = CM [([0], False, [(''paragraph'', [2, 1])]),
                        ([2, 1], True, [(''paragraph'', [2, 1])])] [0],
     markSet = Some []\<rparr>"

text \<open>The document \<open>doc(paragraph("ab"))\<close>.\<close>

definition doc_ab :: Node where
  "doc_ab = Node docType [] [Node paragraphType [] [TextNode textType [] ''ab'' []] []] []"

text \<open>Paragraphs and the document \<open>doc(paragraph("ab"), paragraph("cd"))\<close>.\<close>

definition para :: "string \<Rightarrow> Node" where
  "para s = Node paragraphType [] [TextNode textType [] s []] []"

definition doc_ab_cd :: Node where
  "doc_ab_cd = Node docType [] [para ''ab'', para ''cd''] []"

definition headingType :: NodeType where
  "headingType = \<lparr>nt_name = ''heading'', nt_groups = [''block''],
     nt_attrs = [(''level'', \<lparr>hasDefault = True, default_value = JNum 1,
                               validate = Some [''number'']\<rparr>)],
     nt_inline = False,
     contentMatch = CM [([2, 1], True, [(''text'', [2, 1])])] [2, 1],
     markSet = None\<rparr>"

definition exampleSchema :: Schema where
  "exampleSchema = \<lparr>
     schema_nodes = [(''doc'', docType), (''paragraph'', paragraphType),
                     (''heading'', headingType), (''horizontal_rule'', hrType),
                     (''text'', textType)],
     schema_marks = [(''em'', emType), (''strong'', strongType), (''link'', linkType),
                     (''code'', codeType)]\<rparr>"

text \<open>
  A document of the example schema with an attribute and marks:
  \<open>doc(heading{level: 2}("T"), paragraph("a", em(link("b"))))\<close>.
\<close>

definition doc_marked :: Node where
  "doc_marked = Node docType []
     [Node headingType [(''level'', JNum 2)] [TextNode textType [] ''T'' []] [],
      Node paragraphType []
        [TextNode textType [] ''a'' [],
         TextNode textType [] ''b'' [Mark emType [], Mark linkType [(''href'', JStr ''u'')]]] []] []"

section \<open>Properties\<close>

subsection \<open>Deep comparison is an equivalence\<close>

lemma compareDeep_obj_iff:
  "compareDeep (JObj a) (JObj b) =
     ((\<forall>p v. map_of a p = Some v \<longrightarrow> (\<exists>w. map_of b p = Some w \<and> compareDeep v w))
      \<and> (\<forall>p. map_of b p \<noteq> None \<longrightarrow> map_of a p \<noteq> None))"
  (is "?L = (?A \<and> ?B)")
proof -
  have k: "\<And>(c :: (string \<times> jsval) list) p. (p \<in> fst ` set c) = (map_of c p \<noteq> None)"
    by (simp add: map_of_eq_None_iff)
  have "list_all (\<lambda>p. hasKey p a) (map fst b) = ?B"
    unfolding list_all_iff hasKey_def set_map k [symmetric] by blast
  moreover have "list_all (\<lambda>p. case map_of a p of None \<Rightarrow> False
                  | Some v \<Rightarrow> (case map_of b p of None \<Rightarrow> False
                               | Some w \<Rightarrow> compareDeep v w)) (map fst a) = ?A"
    (is "?C = ?A")
  proof
    assume c: ?C
    show ?A
    proof (intro allI impI)
      fix p v assume v: "map_of a p = Some v"
      then have "p \<in> fst ` set a" unfolding k by simp
      with c have "case map_of a p of None \<Rightarrow> False
                  | Some v \<Rightarrow> (case map_of b p of None \<Rightarrow> False
                               | Some w \<Rightarrow> compareDeep v w)"
        unfolding list_all_iff set_map by blast
      with v show "\<exists>w. map_of b p = Some w \<and> compareDeep v w"
        by (simp split: option.splits)
    qed
  next
    assume a: ?A
    show ?C
      unfolding list_all_iff set_map
    proof
      fix p assume "p \<in> fst ` set a"
      then obtain v where v: "map_of a p = Some v" unfolding k by blast
      with a obtain w where "map_of b p = Some w" "compareDeep v w" by blast
      with v show "case map_of a p of None \<Rightarrow> False
                  | Some v \<Rightarrow> (case map_of b p of None \<Rightarrow> False
                               | Some w \<Rightarrow> compareDeep v w)" by simp
    qed
  qed
  ultimately show ?thesis by simp
qed

declare compareDeep.simps(2) [simp del]

lemma compareDeep_refl: "compareDeep a a"
proof (induction a)
  case (JArr xs)
  then show ?case by (simp add: list_all2_same)
next
  case (JObj a)
  have "\<And>p v. map_of a p = Some v \<Longrightarrow> compareDeep v v"
  proof -
    fix p v assume "map_of a p = Some v"
    then have "(p, v) \<in> set a" by (rule map_of_SomeD)
    then show "compareDeep v v" using JObj by (auto simp: image_iff) 
  qed
  then show ?case by (simp add: compareDeep_obj_iff)
qed simp_all

lemma compareDeep_objD:
  "compareDeep (JObj a) (JObj b) \<Longrightarrow> map_of a p = Some v
   \<Longrightarrow> \<exists>w. map_of b p = Some w \<and> compareDeep v w"
  unfolding compareDeep_obj_iff by blast

lemma compareDeep_objD2:
  "compareDeep (JObj a) (JObj b) \<Longrightarrow> map_of b p = Some w \<Longrightarrow> \<exists>v. map_of a p = Some v"
  unfolding compareDeep_obj_iff by blast

lemma map_of_Some_key: "map_of a p = Some v \<Longrightarrow> p \<in> set (map fst a)"
  by (force dest: map_of_SomeD simp: image_iff)

lemma compareDeep_sym: "compareDeep a b \<Longrightarrow> compareDeep b a"
proof (induction a b rule: compareDeep.induct)
  case (1 xs ys)
  then show ?case
    by (auto simp: list_all2_conv_all_nth)
next
  case (2 a b)
  show ?case
    unfolding compareDeep_obj_iff
  proof (intro conjI allI impI)
    fix p w assume w: "map_of b p = Some w"
    from compareDeep_objD2 [OF "2.prems" w] obtain v where v: "map_of a p = Some v" ..
    from compareDeep_objD [OF "2.prems" v] w have "compareDeep v w" by simp
    then have "compareDeep w v" using "2.IH" [OF map_of_Some_key [OF v] v w] by simp
    then show "\<exists>v. map_of a p = Some v \<and> compareDeep w v" using v by blast
  next
    fix p assume "map_of a p \<noteq> None"
    then obtain v where "map_of a p = Some v" by blast
    from compareDeep_objD [OF "2.prems" this] show "map_of b p \<noteq> None" by auto
  qed
qed auto

lemma compareDeep_trans: "compareDeep a b \<Longrightarrow> compareDeep b c \<Longrightarrow> compareDeep a c"
proof (induction a b arbitrary: c rule: compareDeep.induct)
  case (1 xs ys)
  then obtain zs where c: "c = JArr zs" by (cases c) auto
  from 1 c have l: "length xs = length ys" "length ys = length zs"
    by (auto simp: list_all2_conv_all_nth)
  have "\<And>i. i < length xs \<Longrightarrow> compareDeep (xs ! i) (zs ! i)"
  proof -
    fix i assume i: "i < length xs"
    then have "compareDeep (xs ! i) (ys ! i)" "compareDeep (ys ! i) (zs ! i)"
      using 1 c l by (auto simp: list_all2_conv_all_nth)
    moreover have "xs ! i \<in> set xs" "ys ! i \<in> set ys" using i l by auto
    ultimately show "compareDeep (xs ! i) (zs ! i)" using "1.IH" by blast
  qed
  then show ?case using l c by (simp add: list_all2_conv_all_nth)
next
  case (2 a b)
  then obtain d where c: "c = JObj d" by (cases c) auto
  note bd = "2.prems"(2) [unfolded c]
  show ?case
    unfolding c compareDeep_obj_iff
  proof (intro conjI allI impI)
    fix p v assume v: "map_of a p = Some v"
    from compareDeep_objD [OF "2.prems"(1) v]
    obtain w where w: "map_of b p = Some w" "compareDeep v w" by blast
    from compareDeep_objD [OF bd w(1)]
    obtain u where u: "map_of d p = Some u" "compareDeep w u" by blast
    have "compareDeep v u"
      using "2.IH" [OF map_of_Some_key [OF v] v w(1) w(2) u(2)] .
    then show "\<exists>u. map_of d p = Some u \<and> compareDeep v u" using u by blast
  next
    fix p assume "map_of d p \<noteq> None"
    then obtain u where "map_of d p = Some u" by blast
    from compareDeep_objD2 [OF bd this] obtain w where "map_of b p = Some w" ..
    from compareDeep_objD2 [OF "2.prems"(1) this] show "map_of a p \<noteq> None" by auto
  qed
qed auto

subsection \<open>Node sizes\<close>

lemma Fragment_size_sum: "Fragment_size c = sum_list (map nodeSize c)"
  by (induction c) simp_all

text \<open>
  C7, as stated, fails on a leaf node that is not a text node: a horizontal rule has
  no children, and its size is 1, not 2 + 0.
\<close>

theorem C7_leaf_counterexample:
  "\<not> isText (Node hrType [] [] []) \<and> nodeSize (Node hrType [] [] []) = 1
   \<and> 2 + sum_list (map nodeSize (node_content (Node hrType [] [] []))) = 2"
  by (simp add: isText_def type_isText_def type_isLeaf_def hrType_def)

text \<open>
  C7, amended: the size of a text node is the length of its string; the size of a
  leaf node that is not a text node is 1; the size of every other node is 2 plus the
  sum of the sizes of its children.
\<close>

theorem C7_nodeSize:
  "nodeSize (TextNode t a s m) = int (length s)
   \<and> nodeSize (Node t a c m) =
       (if type_isLeaf t then 1 else 2 + sum_list (map nodeSize c))"
  by (simp add: Fragment_size_sum)

subsection \<open>Adding a mark to a set\<close>

lemma Mark_eq_sym: "Mark_eq a b \<Longrightarrow> Mark_eq b a"
  unfolding Mark_eq_def by (auto intro: compareDeep_sym)

lemma Mark_eq_refl: "Mark_eq a a"
  unfolding Mark_eq_def by (simp add: compareDeep_refl)

lemma placeByRank_all_le:
  "list_all (\<lambda>x. mt_rank (mark_type x) \<le> mt_rank (mark_type m)) ms \<Longrightarrow> placeByRank m ms = ms @ [m]"
  unfolding placeByRank_def by (simp add: list_all_iff)

lemma placeByRank_snoc_gt:
  "list_all (\<lambda>x. mt_rank (mark_type x) \<le> mt_rank (mark_type m)) ms \<Longrightarrow>
   \<not> mt_rank (mark_type x) \<le> mt_rank (mark_type m) \<Longrightarrow> placeByRank m (ms @ [x]) = ms @ [m, x]"
  unfolding placeByRank_def by (simp add: list_all_iff takeWhile_append2 dropWhile_append2)

lemma placeByRank_snoc_placed:
  "\<not> list_all (\<lambda>x. mt_rank (mark_type x) \<le> mt_rank (mark_type m)) ms \<Longrightarrow>
   placeByRank m (ms @ [x]) = placeByRank m ms @ [x]"
  unfolding placeByRank_def by (auto simp: list_all_iff takeWhile_append1 dropWhile_append1)

lemma addToSet_loop_spec:
  "addToSet_inv m pre copy placed \<Longrightarrow> S = pre @ rest \<Longrightarrow>
   addToSet_loop m S pre rest copy placed =
     (if list_ex (\<lambda>x. Mark_eq m x \<or> (\<not> excludes (mark_type m) (mark_type x)
                                      \<and> excludes (mark_type x) (mark_type m))) rest
      then S
      else placeByRank m (filter (\<lambda>x. \<not> excludes (mark_type m) (mark_type x)) S))"
proof (induction rest arbitrary: pre copy placed)
  case Nil
  then show ?case
    by (auto simp: addToSet_inv_def Let_def placeByRank_all_le split: option.splits if_splits)
next
  case (Cons x rest)
  have S: "S = (pre @ [x]) @ rest" using Cons.prems by simp
  show ?case
  proof (cases "Mark_eq m x")
    case True
    then show ?thesis by simp
  next
    case ne: False
    show ?thesis
    proof (cases "excludes (mark_type m) (mark_type x)")
      case True
      have "addToSet_inv m (pre @ [x]) (case copy of None \<Rightarrow> Some pre | Some c \<Rightarrow> Some c) placed"
        using Cons.prems(1) True
        by (auto simp: addToSet_inv_def Let_def split: option.splits if_splits)
      from Cons.IH [OF this S] show ?thesis using ne True by simp
    next
      case ex: False
      show ?thesis
      proof (cases "excludes (mark_type x) (mark_type m)")
        case True
        then show ?thesis using ne ex by simp
      next
        case False
        show ?thesis
        proof (cases "\<not> placed \<and> mt_rank (mark_type x) > mt_rank (mark_type m)")
          case True
          have "addToSet_inv m (pre @ [x])
                  (Some ((case copy of None \<Rightarrow> pre | Some c \<Rightarrow> c) @ [m] @ [x])) True"
            using Cons.prems(1) True ex
            by (auto simp: addToSet_inv_def Let_def placeByRank_snoc_gt split: option.splits)
          from Cons.IH [OF this S] show ?thesis using ne ex False True by simp
        next
          case np: False
          have "addToSet_inv m (pre @ [x])
                  (case copy of None \<Rightarrow> None | Some c \<Rightarrow> Some (c @ [x])) placed"
            using Cons.prems(1) np ex
            by (auto simp: addToSet_inv_def Let_def placeByRank_snoc_placed split: option.splits if_splits)
          from Cons.IH [OF this S] show ?thesis using ne ex False np by auto
        qed
      qed
    qed
  qed
qed

lemma addToSet_spec:
  "addToSet m S =
     (if list_ex (\<lambda>x. Mark_eq m x \<or> (\<not> excludes (mark_type m) (mark_type x)
                                      \<and> excludes (mark_type x) (mark_type m))) S
      then S
      else placeByRank m (filter (\<lambda>x. \<not> excludes (mark_type m) (mark_type x)) S))"
  unfolding addToSet_def
  by (rule addToSet_loop_spec) (simp_all add: addToSet_inv_def)

lemma rank_sorted_filter: "rank_sorted ms \<Longrightarrow> rank_sorted (filter P ms)"
  unfolding rank_sorted_def by (induction ms) auto

lemma rank_sorted_placeByRank: "rank_sorted ms \<Longrightarrow> rank_sorted (placeByRank m ms)"
proof (induction ms)
  case Nil
  then show ?case by (simp add: rank_sorted_def placeByRank_def)
next
  case (Cons x ms)
  then show ?case
    by (auto simp: rank_sorted_def placeByRank_def dest: set_takeWhileD set_dropWhileD)
qed

lemma deduplicated_filter: "deduplicated ms \<Longrightarrow> deduplicated (filter P ms)"
  by (induction ms) (auto simp: list_all_iff)

lemma deduplicated_insert:
  "deduplicated (xs @ ys) \<Longrightarrow> list_all (\<lambda>x. \<not> Mark_eq m x \<and> \<not> Mark_eq x m) (xs @ ys)
   \<Longrightarrow> deduplicated (xs @ m # ys)"
  by (induction xs) (auto simp: list_all_iff)

lemma deduplicated_placeByRank:
  "deduplicated ms \<Longrightarrow> list_all (\<lambda>x. \<not> Mark_eq m x \<and> \<not> Mark_eq x m) ms
   \<Longrightarrow> deduplicated (placeByRank m ms)"
  unfolding placeByRank_def
  by (rule deduplicated_insert) simp_all



subsection \<open>Mapping a position through a step map and back\<close>

lemma fwd_Nil: "fwd [] i d p = p + d"
  by (simp add: fwd_def)

lemma bwd_Nil: "bwd [] i d p = p + d"
  by (simp add: bwd_def)

lemma fwd_before: "p < s \<Longrightarrow> fwd (s # a # b # rs) i d p = p + d"
  by (simp add: fwd_def)

lemma fwd_end: "0 \<le> a \<Longrightarrow> p = s + a \<Longrightarrow> fwd (s # a # b # rs) i d p = s + d + b"
  by (simp add: fwd_def Let_def)

lemma fwd_after:
  "s + a < p \<Longrightarrow> 0 \<le> a \<Longrightarrow> fwd (s # a # b # rs) i d p = fwd rs (i + 1) (d + (b - a)) p"
  by (simp add: fwd_def Let_def)

lemma bwd_before: "q < s - d \<Longrightarrow> bwd (s # a # b # rs) i d q = q + d"
  by (simp add: bwd_def)

lemma bwd_end: "0 \<le> b \<Longrightarrow> q = s - d + b \<Longrightarrow> bwd (s # a # b # rs) i d q = s + a"
  by (simp add: bwd_def Let_def)

lemma bwd_after:
  "s - d + b < q \<Longrightarrow> 0 \<le> b \<Longrightarrow> bwd (s # a # b # rs) i d q = bwd rs (i + 1) (d + (a - b)) q"
  by (simp add: bwd_def Let_def)

lemma fwd_lower:
  "apart lb rs \<Longrightarrow> outside_deleted p rs \<Longrightarrow> lb < p \<Longrightarrow> lb + d < fwd rs i d p"
proof (induction lb rs arbitrary: i d rule: apart.induct)
  case (1 lb s a b rs)
  then have s: "lb < s" "0 \<le> a" "0 \<le> b" "apart (s + a) rs" "outside_deleted p rs"
    and out: "\<not> (s \<le> p \<and> p < s + a)" by simp_all
  consider "p < s" | "p = s + a" | "s + a < p" using out by linarith
  then show ?case
  proof cases
    case 1
    then show ?thesis using "1.prems"(3) by (simp add: fwd_before)
  next
    case 2
    then show ?thesis using s by (simp add: fwd_end)
  next
    case 3
    have "s + a + (d + (b - a)) < fwd rs (i + 1) (d + (b - a)) p"
      using "1.IH" [OF s(4) s(5) 3] .
    then show ?thesis using 3 s by (simp add: fwd_after)
  qed
next
  case (2 lb)
  then show ?case by (simp add: fwd_Nil)
qed simp_all

lemma map_back:
  "apart lb rs \<Longrightarrow> outside_deleted p rs \<Longrightarrow> bwd rs j (- d) (fwd rs i d p) = p"
proof (induction lb rs arbitrary: i j d rule: apart.induct)
  case (1 lb s a b rs)
  then have s: "lb < s" "0 \<le> a" "0 \<le> b" "apart (s + a) rs" "outside_deleted p rs"
    and out: "\<not> (s \<le> p \<and> p < s + a)" by simp_all
  consider "p < s" | "p = s + a" | "s + a < p" using out by linarith
  then show ?case
  proof cases
    case 1
    then show ?thesis by (simp add: fwd_before bwd_before)
  next
    case 2
    then show ?thesis using s by (simp add: fwd_end bwd_end)
  next
    case 3
    let ?q = "fwd rs (i + 1) (d + (b - a)) p"
    have "s + a + (d + (b - a)) < ?q"
      using fwd_lower [OF s(4) s(5) 3] .
    then have q: "s - (- d) + b < ?q" by simp
    have "bwd rs (j + 1) (- (d + (b - a))) ?q = p"
      using "1.IH" [OF s(4) s(5)] .
    moreover have "- d + (a - b) = - (d + (b - a))" by simp
    ultimately show ?thesis using 3 s q by (simp add: fwd_after bwd_after)
  qed
next
  case (2 lb)
  then show ?case by (simp add: fwd_Nil bwd_Nil)
qed simp_all





subsection \<open>Resolving a position\<close>

lemma nodeSize_nonneg: "0 \<le> nodeSize n" and Fragment_size_nonneg: "0 \<le> Fragment_size c"
  by (induction n and c rule: nodeSize_Fragment_size.induct) simp_all

lemma findIndex_loop_ok:
  "curPos < pos \<Longrightarrow> pos \<le> curPos + Fragment_size c \<Longrightarrow>
   \<exists>k off. findIndex_loop c i curPos pos (- 1) = Inr (i + k, off) \<and> off \<le> pos
     \<and> k \<le> length c
     \<and> (off < pos \<longrightarrow> k < length c \<and> pos - off < nodeSize (c ! k))"
proof (induction c arbitrary: i curPos)
  case Nil
  then show ?case by simp
next
  case (Cons cur rest)
  show ?case
  proof (cases "curPos + nodeSize cur \<ge> pos")
    case True
    show ?thesis
    proof (cases "curPos + nodeSize cur = pos")
      case True
      then have "findIndex_loop (cur # rest) i curPos pos (- 1) = Inr (i + 1, pos)"
        by (simp add: Let_def)
      then show ?thesis by fastforce
    next
      case False
      with True have "findIndex_loop (cur # rest) i curPos pos (- 1) = Inr (i + 0, curPos)"
        by (simp add: Let_def)
      moreover have "pos - curPos < nodeSize ((cur # rest) ! 0)" using True False by simp
      ultimately show ?thesis using Cons.prems by fastforce
    qed
  next
    case False
    then have lt: "curPos + nodeSize cur < pos" by simp
    have "pos \<le> (curPos + nodeSize cur) + Fragment_size rest" using Cons.prems by simp
    from Cons.IH [OF lt this, of "i + 1"]
    obtain k off where k: "findIndex_loop rest (i + 1) (curPos + nodeSize cur) pos (- 1)
        = Inr (i + 1 + k, off)" "off \<le> pos" "k \<le> length rest"
        "off < pos \<longrightarrow> k < length rest \<and> pos - off < nodeSize (rest ! k)" by blast
    have "findIndex_loop (cur # rest) i curPos pos (- 1) = Inr (i + Suc k, off)"
      using lt k(1) by (simp add: Let_def)
    then show ?thesis using k(2,3,4) by fastforce
  qed
qed

lemma findIndex_ok:
  assumes "0 \<le> pos" and "pos \<le> Fragment_size c"
  shows "\<exists>k off. findIndex c pos (- 1) = Inr (k, off) \<and> off \<le> pos \<and> k \<le> length c
     \<and> (off < pos \<longrightarrow> k < length c \<and> pos - off < nodeSize (c ! k))"
proof (cases "pos = 0 \<or> pos = Fragment_size c")
  case True
  then show ?thesis by (auto simp: findIndex_def)
next
  case False
  then have "0 < pos" "pos \<le> 0 + Fragment_size c" using assms by auto
  from findIndex_loop_ok [OF this, of 0]
  show ?thesis using False assms by (simp add: findIndex_def)
qed

lemma resolve_loop_ok:
  "text_typed node \<Longrightarrow> 0 \<le> poff \<Longrightarrow> poff \<le> Fragment_size (node_content node) \<Longrightarrow>
   \<exists>path1 poff1. resolve_loop node path start poff = Inr (path1, poff1)"
proof (induction node path start poff rule: resolve_loop.induct)
  case (1 node path start poff)
  from findIndex_ok [OF "1.prems"(2,3)]
  obtain k off where f: "findIndex (node_content node) poff (- 1) = Inr (k, off)"
    "off \<le> poff" "k \<le> length (node_content node)"
    "off < poff \<longrightarrow> k < length (node_content node)
       \<and> poff - off < nodeSize (node_content node ! k)" by blast
  show ?case
  proof (cases "poff - off = 0")
    case True
    then show ?thesis using f(1) by (subst resolve_loop.simps) (simp add: Let_def)
  next
    case False
    then have lt: "off < poff" using f(2) by simp
    let ?n = "node_content node ! k"
    have k: "k < length (node_content node)" "poff - off < nodeSize ?n" using f(4) lt by auto
    have c: "Fragment_child (node_content node) k = Inr ?n" using k by (simp add: Fragment_child_def)
    show ?thesis
    proof (cases "isText ?n")
      case True
      then show ?thesis using f(1) c False
        by (subst resolve_loop.simps) (simp add: Let_def)
    next
      case nt: False
      have tt: "text_typed ?n"
        using "1.prems"(1) k(1) by (cases node) (auto simp: list_all_length)
      obtain t a cs m where n: "?n = Node t a cs m"
        using nt tt by (cases ?n) (auto simp: isText_def)
      have "poff - off - 1 \<le> Fragment_size (node_content ?n)"
        using k(2) lt n by (auto split: if_splits)
      moreover have "0 \<le> poff - off - 1" using lt by simp
      ultimately obtain p1 q1 where
        "resolve_loop ?n (path @ [(node, k, start + off)]) (start + (off + 1)) (poff - off - 1)
           = Inr (p1, q1)"
        using "1.IH" [OF f(1) refl refl refl False c nt tt] by blast
      then show ?thesis using f(1) c False nt
        by (subst resolve_loop.simps) (simp add: Let_def)
    qed
  qed
qed

text \<open>
  C9: in a tree \<open>t\<close> (where the text nodes are the nodes of the text type), resolving
  \<open>p\<close> throws exactly when \<open>p\<close> is outside the interval from 0 to the size of the content
  of \<open>t\<close>; for every \<open>p\<close> in the interval it returns a \<open>ResolvedPos\<close> whose \<open>pos\<close> is \<open>p\<close> and
  whose \<open>depth\<close> is the length of its path divided by 3, minus 1. \<open>Node.resolve\<close> returns
  what \<open>ResolvedPos.resolve\<close> returns.
\<close>

theorem C9_resolve:
  assumes "text_typed t"
  shows "((\<exists>e. resolve t p = Inl e) = (p < 0 \<or> Fragment_size (node_content t) < p))
    \<and> (0 \<le> p \<and> p \<le> Fragment_size (node_content t) \<longrightarrow>
         (\<exists>r. resolve t p = Inr r \<and> rp_pos r = p
              \<and> depth r = path_length (rp_path r) div 3 - 1))
    \<and> Node_resolve t p = resolve t p"
proof (cases "0 \<le> p \<and> p \<le> Fragment_size (node_content t)")
  case True
  then obtain path1 poff1 where "resolve_loop t [] 0 p = Inr (path1, poff1)"
    using resolve_loop_ok [OF assms, of p] by blast
  then have "resolve t p = Inr (new_ResolvedPos p path1 poff1)"
    using True by (simp add: resolve_def)
  then show ?thesis using True by (auto simp: new_ResolvedPos_def Node_resolve_def)
next
  case False
  then have "resolve t p = Inl (RangeError ''Position out of range'')"
    by (simp add: resolve_def)
  then show ?thesis using False by (auto simp: Node_resolve_def)
qed

text \<open>
  Witness for C9: in \<open>doc(paragraph("ab"))\<close>, whose content has size 4, position 2
  resolves and position 5 throws.
\<close>

theorem C9_resolve_witness:
  "text_typed doc_ab \<and> Fragment_size (node_content doc_ab) = 4
   \<and> (\<exists>r. resolve doc_ab 2 = Inr r \<and> rp_pos r = 2
          \<and> depth r = path_length (rp_path r) div 3 - 1)
   \<and> (\<exists>e. resolve doc_ab 5 = Inl e)"
proof -
  have tt: "text_typed doc_ab"
    by (simp add: doc_ab_def docType_def paragraphType_def textType_def type_isText_def)
  have sz: "Fragment_size (node_content doc_ab) = 4"
    by (simp add: doc_ab_def docType_def paragraphType_def textType_def type_isLeaf_def)
  have "\<exists>r. resolve doc_ab 2 = Inr r \<and> rp_pos r = 2
          \<and> depth r = path_length (rp_path r) div 3 - 1"
    using C9_resolve [OF tt, of 2] sz by simp
  moreover have "\<exists>e. resolve doc_ab 5 = Inl e"
    using C9_resolve [OF tt, of 5] sz by simp
  ultimately show ?thesis using tt sz by blast
qed

subsection \<open>The errors of replace\<close>

lemmas example_defs = doc_ab_def doc_ab_cd_def para_def docType_def paragraphType_def textType_def
  hrType_def

lemma resolve_doc_ab_cd_2:
  "resolve doc_ab_cd 2 = Inr \<lparr>rp_pos = 2, rp_path = [(doc_ab_cd, 0, 0), (para ''ab'', 0, 1)],
     parentOffset = 1, depth = 1\<rparr>"
  by code_simp

text \<open>
  C3: for all resolved positions \<open>$from\<close> and \<open>$to\<close> and every slice \<open>s\<close>, \<open>replace\<close> throws a
  \<open>ReplaceError\<close> when \<open>s.openStart > $from.depth\<close>, and when
  \<open>$from.depth - s.openStart\<close> differs from \<open>$to.depth - s.openEnd\<close>. No tree is returned
  then, and nothing else of the positions or of the slice is read before: the result is
  the same whatever they hold.
\<close>

theorem C3_replace_errors:
  "(openStart s > depth rfrom \<longrightarrow>
      replace rfrom rto s = Inl (ReplaceError ''Inserted content deeper than insertion position''))
   \<and> (\<not> openStart s > depth rfrom \<and> depth rfrom - openStart s \<noteq> depth rto - openEnd s \<longrightarrow>
      replace rfrom rto s = Inl (ReplaceError ''Inconsistent open depths''))
   \<and> (openStart s > depth rfrom \<or> depth rfrom - openStart s \<noteq> depth rto - openEnd s \<longrightarrow>
      (\<exists>message. replace rfrom rto s = Inl (ReplaceError message)))"
  by (simp add: replace_def)

text \<open>
  Witness for C3: at position 2 of \<open>doc(paragraph("ab"), paragraph("cd"))\<close>, of depth 1, a
  slice open by 2 at the start is too deep, and a slice open by 1 at the start only is
  inconsistent.
\<close>

theorem C3_replace_errors_witness:
  "\<exists>r. resolve doc_ab_cd 2 = Inr r \<and> depth r = 1
     \<and> replace r r \<lparr>slice_content = [para ''X''], openStart = 2, openEnd = 0\<rparr>
         = Inl (ReplaceError ''Inserted content deeper than insertion position'')
     \<and> replace r r \<lparr>slice_content = [para ''X''], openStart = 1, openEnd = 0\<rparr>
         = Inl (ReplaceError ''Inconsistent open depths'')"
proof -
  let ?r = "\<lparr>rp_pos = 2, rp_path = [(doc_ab_cd, 0, 0), (para ''ab'', 0, 1)],
     parentOffset = 1, depth = 1\<rparr>"
  have "replace ?r ?r \<lparr>slice_content = [para ''X''], openStart = 2, openEnd = 0\<rparr>
         = Inl (ReplaceError ''Inserted content deeper than insertion position'')"
    using C3_replace_errors [where s = "\<lparr>slice_content = [para ''X''], openStart = 2, openEnd = 0\<rparr>"
        and rfrom = ?r and rto = ?r]
    by simp
  moreover have "replace ?r ?r \<lparr>slice_content = [para ''X''], openStart = 1, openEnd = 0\<rparr>
         = Inl (ReplaceError ''Inconsistent open depths'')"
    using C3_replace_errors [where s = "\<lparr>slice_content = [para ''X''], openStart = 1, openEnd = 0\<rparr>"
        and rfrom = ?r and rto = ?r]
    by simp
  ultimately show ?thesis using resolve_doc_ab_cd_2 by simp
qed

subsection \<open>Applying a replace step\<close>

lemma findIndex_loop_error:
  "findIndex_loop c i cp pos rnd = Inl e \<Longrightarrow> \<not> isReplaceError e"
  by (induction c i cp pos rnd rule: findIndex_loop.induct)
     (auto simp: isReplaceError_def Let_def split: if_splits)

lemma findIndex_error: "findIndex c pos rnd = Inl e \<Longrightarrow> \<not> isReplaceError e"
  by (auto simp: findIndex_def isReplaceError_def split: if_splits dest: findIndex_loop_error)

lemma Fragment_child_error: "Fragment_child c i = Inl e \<Longrightarrow> \<not> isReplaceError e"
  by (auto simp: Fragment_child_def isReplaceError_def split: if_splits)

lemma bindE_InlD:
  "bindE m f = Inl e \<Longrightarrow> m = Inl e \<or> (\<exists>x. m = Inr x \<and> f x = Inl e)"
  by (cases m) auto

lemma resolve_loop_error:
  "resolve_loop n path st po = Inl e \<Longrightarrow> \<not> isReplaceError e"
proof (induction n path st po rule: resolve_loop.induct)
  case (1 node path start poff)
  show ?case
  proof (cases "findIndex (node_content node) poff (- 1)")
    case (Inl e1)
    then have "e = e1" using "1.prems" by (subst (asm) resolve_loop.simps) simp
    then show ?thesis using findIndex_error [OF Inl] by simp
  next
    case (Inr x)
    obtain index offset where x: "x = (index, offset)" by (cases x)
    note f = Inr [unfolded x]
    show ?thesis
    proof (cases "poff - offset = 0")
      case True
      then show ?thesis using "1.prems" f
        by (subst (asm) resolve_loop.simps) (simp add: Let_def)
    next
      case False
      show ?thesis
      proof (cases "Fragment_child (node_content node) index")
        case (Inl e1)
        then have "e = e1" using "1.prems" f False
          by (subst (asm) resolve_loop.simps) (simp add: Let_def)
        then show ?thesis using Fragment_child_error [OF Inl] by simp
      next
        case c: (Inr node1)
        show ?thesis
        proof (cases "isText node1")
          case True
          then show ?thesis using "1.prems" f False c
            by (subst (asm) resolve_loop.simps) (simp add: Let_def)
        next
          case nt: False
          have "resolve_loop node1 (path @ [(node, index, start + offset)])
                  (start + (offset + 1)) (poff - offset - 1) = Inl e"
            using "1.prems" f False c nt
            by (subst (asm) resolve_loop.simps) (simp add: Let_def)
          then show ?thesis using "1.IH" [OF f refl refl refl False c nt] by simp
        qed
      qed
    qed
  qed
qed

lemma resolve_error: "resolve d p = Inl e \<Longrightarrow> \<not> isReplaceError e"
  by (auto simp: resolve_def isReplaceError_def split: if_splits
      dest!: bindE_InlD dest: resolve_loop_error)

lemma defined_error: "defined x = Inl e \<Longrightarrow> e = TypeError"
  by (auto simp: defined_def split: option.splits)

lemma cb_up_error: "cb_up r dist d = Inl e \<Longrightarrow> e = TypeError"
proof (induction r dist d rule: cb_up.induct)
  case (1 r dist d)
  show ?case
  proof (cases "dist > 0 \<and> d > 0")
    case True
    show ?thesis
    proof (cases "rp_node r d")
      case None
      then show ?thesis using "1.prems" True
        by (subst (asm) cb_up.simps) (simp add: defined_def)
    next
      case (Some node)
      then have dn: "defined (rp_node r d) = Inr node" by (simp add: defined_def)
      show ?thesis
      proof (cases "indexAfter r d = Some (length (node_content node))")
        case ia: True
        have "cb_up r (dist - 1) (d - 1) = Inl e"
          using "1.prems" True dn ia by (subst (asm) cb_up.simps) simp
        then show ?thesis using "1.IH" [OF True dn ia] by simp
      next
        case False
        then show ?thesis using "1.prems" True dn
          by (subst (asm) cb_up.simps) simp
      qed
    qed
  next
    case False
    then show ?thesis using "1.prems" by (subst (asm) cb_up.simps) auto
  qed
qed

lemma contentBetween_error: "contentBetween d from to = Inl e \<Longrightarrow> \<not> isReplaceError e"
  by (auto simp: contentBetween_def Node_resolve_def isReplaceError_def
      dest!: bindE_InlD defined_error cb_up_error split: if_splits
      dest: resolve_error [unfolded isReplaceError_def])

lemma fromReplace_cases:
  "fromReplace d from to sl =
     (case Node_replace d from to sl of
        Inr d1 \<Rightarrow> Inr (StepResult_ok d1)
      | Inl e \<Rightarrow> if isReplaceError e
                 then Inr (StepResult_fail (case e of ReplaceError message \<Rightarrow> message))
                 else Inl e)"
  by (auto simp: fromReplace_def isReplaceError_def split: sum.splits error.splits)




subsection \<open>Building fragments\<close>

lemma Mark_eq_trans: "Mark_eq a b \<Longrightarrow> Mark_eq b c \<Longrightarrow> Mark_eq a c"
  unfolding Mark_eq_def by (auto intro: compareDeep_trans)

lemma sameSet_refl: "sameSet a a"
  unfolding sameSet_def by (simp add: list_all2_same Mark_eq_refl)

lemma sameSet_sym: "sameSet a b \<Longrightarrow> sameSet b a"
  unfolding sameSet_def by (auto simp: list_all2_conv_all_nth intro: Mark_eq_sym)

lemma sameSet_trans: "sameSet a b \<Longrightarrow> sameSet b c \<Longrightarrow> sameSet a c"
  unfolding sameSet_def by (rule list_all2_trans [OF Mark_eq_trans])

lemma sameMarkup_refl: "sameMarkup a a"
  unfolding sameMarkup_def by (simp add: compareDeep_refl sameSet_refl)

lemma sameMarkup_sym: "sameMarkup a b \<Longrightarrow> sameMarkup b a"
  unfolding sameMarkup_def by (auto intro: compareDeep_sym sameSet_sym)

lemma sameMarkup_trans: "sameMarkup a b \<Longrightarrow> sameMarkup b c \<Longrightarrow> sameMarkup a c"
  unfolding sameMarkup_def by (auto intro: compareDeep_trans sameSet_trans)

lemma sameMarkup_isText: "sameMarkup a b \<Longrightarrow> isText a = isText b"
  unfolding sameMarkup_def isText_def by simp

lemma withText_Inr:
  "withText n txt = Inr n' \<Longrightarrow>
   node_type n' = node_type n \<and> node_attrs n' = node_attrs n \<and> node_marks n' = node_marks n"
  by (cases n) (auto simp: withText_def split: if_splits)

lemma withText_sameMarkup_left: "withText n txt = Inr n' \<Longrightarrow> sameMarkup n' x = sameMarkup n x"
  by (drule withText_Inr) (simp add: sameMarkup_def)

lemma withText_sameMarkup_right: "withText n txt = Inr n' \<Longrightarrow> sameMarkup x n' = sameMarkup x n"
  by (drule withText_Inr) (simp add: sameMarkup_def)

lemma withText_isText: "withText n txt = Inr n' \<Longrightarrow> isText n' = isText n"
  by (drule withText_Inr) (simp add: isText_def)

lemma merged_snoc:
  "merged (xs @ [x]) \<Longrightarrow> \<not> (isText x \<and> isText y \<and> sameMarkup x y) \<Longrightarrow> merged (xs @ [x, y])"
  by (induction xs rule: merged.induct) auto

lemma merged_append:
  "merged xs \<Longrightarrow> merged ys \<Longrightarrow> xs \<noteq> [] \<Longrightarrow> ys \<noteq> [] \<Longrightarrow>
   \<not> (isText (last xs) \<and> isText (hd ys) \<and> sameMarkup (last xs) (hd ys)) \<Longrightarrow> merged (xs @ ys)"
proof (induction xs rule: merged.induct)
  case (2 n)
  then show ?case by (cases ys) auto
qed auto

lemma merged_replace_last:
  "merged (xs @ [x]) \<Longrightarrow> isText x' = isText x \<Longrightarrow> (\<And>z. sameMarkup z x' = sameMarkup z x)
   \<Longrightarrow> merged (xs @ [x'])"
  by (induction xs rule: merged.induct) auto

lemma merged_butlast_snoc:
  assumes "merged j" and "j \<noteq> []" and "isText x' = isText (last j)"
    and "\<And>z. sameMarkup z x' = sameMarkup z (last j)"
  shows "merged (butlast j @ [x'])"
proof -
  have "merged (butlast j @ [last j])" using assms(1,2) by simp
  then show ?thesis using assms(3,4) by (rule merged_replace_last)
qed

lemma fromArray_loop_merged:
  "fromArray_inv pre joined \<Longrightarrow> fromArray_loop pre rest joined = Inr f \<Longrightarrow> merged f"
proof (induction pre rest joined rule: fromArray_loop.induct)
  case (1 pre joined)
  then show ?case by (auto simp: fromArray_inv_def split: option.splits)
next
  case (2 pre node rest joined)
  let ?j = "case joined of None \<Rightarrow> pre | Some j \<Rightarrow> j"
  have inv: "merged ?j" "(pre = []) = (?j = [])" "pre \<noteq> [] \<longrightarrow> sameMarkup (last pre) (last ?j)"
    using "2.prems"(1) by (simp_all add: fromArray_inv_def Let_def)
  show ?case
  proof (cases "pre \<noteq> [] \<and> isText node \<and> sameMarkup (last pre) node")
    case True
    then obtain n where n: "withText node (text_or_undefined (last ?j) @ text_or_undefined node) = Inr n"
      and r: "fromArray_loop (pre @ [node]) rest (Some (butlast ?j @ [n])) = Inr f"
      using "2.prems"(2) by (auto simp: Let_def bindE_def split: sum.splits)
    have jn: "?j \<noteq> []" using True inv(2) by simp
    have slj: "sameMarkup (last ?j) node"
      using True inv(3) by (blast intro: sameMarkup_trans sameMarkup_sym)
    have "isText n = isText (last ?j)"
      using withText_isText [OF n] sameMarkup_isText [OF slj] by simp
    moreover have "\<And>z. sameMarkup z n = sameMarkup z (last ?j)"
      using withText_sameMarkup_right [OF n] slj
      by (blast intro: sameMarkup_trans sameMarkup_sym)
    ultimately have m: "merged (butlast ?j @ [n])"
      using merged_butlast_snoc [OF inv(1) jn] by blast
    have "sameMarkup node n"
      using withText_sameMarkup_right [OF n] sameMarkup_refl by simp
    then have "fromArray_inv (pre @ [node]) (Some (butlast ?j @ [n]))"
      using m by (simp add: fromArray_inv_def)
    from "2.IH"(1) [OF True refl n this r] show ?thesis .
  next
    case False
    then have r: "fromArray_loop (pre @ [node]) rest (map_option (\<lambda>j. j @ [node]) joined) = Inr f"
      using "2.prems"(2) by auto
    have "merged (?j @ [node])"
    proof (cases "pre = []")
      case True
      then show ?thesis using inv(2) by simp
    next
      case ne: False
      then have jn: "?j \<noteq> []" using inv(2) by simp
      have "\<not> (isText (last ?j) \<and> isText node \<and> sameMarkup (last ?j) node)"
        using False ne inv(3) by (blast intro: sameMarkup_trans)
      then have "merged (butlast ?j @ [last ?j, node])"
        using merged_snoc [of "butlast ?j" "last ?j" node] inv(1) jn by simp
      then show ?thesis using jn
        by (metis append_butlast_last_id append.assoc append_Cons append_Nil)
    qed
    then have "fromArray_inv (pre @ [node]) (map_option (\<lambda>j. j @ [node]) joined)"
      by (cases joined) (auto simp: fromArray_inv_def sameMarkup_refl)
    from "2.IH"(2) [OF False this r] show ?thesis .
  qed
qed

lemma fromArray_merged: "fromArray a = Inr f \<Longrightarrow> merged f"
proof (cases "a = []")
  case True
  then show "fromArray a = Inr f \<Longrightarrow> merged f" by (auto simp: fromArray_def)
next
  case False
  assume "fromArray a = Inr f"
  then have "fromArray_loop [] a None = Inr f" using False by (simp add: fromArray_def)
  moreover have "fromArray_inv [] None" by (simp add: fromArray_inv_def)
  ultimately show "merged f" by (rule fromArray_loop_merged [rotated])
qed

lemma text_typed_isText: "text_typed n \<Longrightarrow> isText n = (\<exists>t a s m. n = TextNode t a s m)"
  by (cases n) (auto simp: isText_def)

lemma withText_total:
  "text_typed n \<Longrightarrow> isText n \<Longrightarrow> \<exists>n'. withText n (s @ text_or_undefined n) = Inr n' \<and> text_typed n'"
  by (cases n) (auto simp: withText_def text_or_undefined_def isText_def)

lemma withText_total_left:
  "text_typed n \<Longrightarrow> isText n \<Longrightarrow> \<exists>n'. withText n (text_or_undefined n @ s) = Inr n' \<and> text_typed n'"
  by (cases n) (auto simp: withText_def text_or_undefined_def isText_def)

lemma fromArray_loop_total:
  "list_all text_typed rest \<Longrightarrow> \<exists>f. fromArray_loop pre rest joined = Inr f"
proof (induction pre rest joined rule: fromArray_loop.induct)
  case (1 pre joined)
  then show ?case by simp
next
  case (2 pre node rest joined)
  let ?j = "case joined of None \<Rightarrow> pre | Some j \<Rightarrow> j"
  have tt: "text_typed node" "list_all text_typed rest" using "2.prems" by simp_all
  show ?case
  proof (cases "pre \<noteq> [] \<and> isText node \<and> sameMarkup (last pre) node")
    case True
    then obtain n where n: "withText node (text_or_undefined (last ?j) @ text_or_undefined node) = Inr n"
      using withText_total [OF tt(1), of "text_or_undefined (last ?j)"] by blast
    from "2.IH"(1) [OF True refl n tt(2)] show ?thesis using True n by (simp add: Let_def)
  next
    case False
    from "2.IH"(2) [OF False tt(2)] show ?thesis using False by auto
  qed
qed

lemma fromArray_total: "list_all text_typed a \<Longrightarrow> \<exists>f. fromArray a = Inr f"
  by (simp add: fromArray_def fromArray_loop_total)

lemma Fragment_size_Nil_iff: "Fragment_size c \<noteq> 0 \<Longrightarrow> c \<noteq> []"
  by auto

lemma append_merged:
  assumes "merged x" and "merged y" and "Fragment_append x y = Inr f"
  shows "merged f"
proof (cases "Fragment_size y = 0 \<or> Fragment_size x = 0")
  case True
  then show ?thesis using assms by (auto simp: Fragment_append_def split: if_splits)
next
  case False
  then have ne: "x \<noteq> []" "y \<noteq> []" by auto
  show ?thesis
  proof (cases "isText (last x) \<and> sameMarkup (last x) (hd y)")
    case True
    then obtain n where n: "withText (last x) (text_or_undefined (last x) @ text_or_undefined (hd y)) = Inr n"
      and f: "f = butlast x @ n # tl y"
      using assms(3) False by (auto simp: Fragment_append_def Let_def bindE_def split: sum.splits)
    have m1: "merged (butlast x @ [n])"
      using merged_butlast_snoc [OF assms(1) ne(1), of n]
        withText_isText [OF n] withText_sameMarkup_right [OF n] by simp
    have "merged (n # tl y)"
    proof (cases "tl y")
      case Nil
      then show ?thesis by simp
    next
      case (Cons b bs)
      then have y: "y = hd y # b # bs" using ne(2) by (cases y) auto
      then have "\<not> (isText (hd y) \<and> isText b \<and> sameMarkup (hd y) b)" "merged (b # bs)"
        using assms(2) by (metis merged.simps(3))+
      moreover have "isText (hd y)" using True sameMarkup_isText by blast
      moreover have "sameMarkup n b \<Longrightarrow> sameMarkup (hd y) b"
        using withText_sameMarkup_left [OF n] True
        by (blast intro: sameMarkup_trans sameMarkup_sym)
      ultimately show ?thesis using Cons by auto
    qed
    then have "merged ((butlast x @ [n]) @ tl y)"
    proof (cases "tl y")
      case Nil
      then show ?thesis using m1 by simp
    next
      case (Cons b bs)
      have "\<not> (isText (last (butlast x @ [n])) \<and> isText (hd (tl y))
               \<and> sameMarkup (last (butlast x @ [n])) (hd (tl y)))"
        using \<open>merged (n # tl y)\<close> Cons by auto
      moreover have "merged (tl y)" using \<open>merged (n # tl y)\<close> Cons by auto
      ultimately show ?thesis using merged_append [OF m1, of "tl y"] Cons by simp
    qed
    then show ?thesis using f by simp
  next
    case False
    then have f: "f = x @ y" using assms(3) \<open>\<not> (Fragment_size y = 0 \<or> Fragment_size x = 0)\<close>
      by (auto simp: Fragment_append_def Let_def)
    have "\<not> (isText (last x) \<and> isText (hd y) \<and> sameMarkup (last x) (hd y))"
      using False by blast
    then show ?thesis using merged_append [OF assms(1,2) ne] f by simp
  qed
qed

lemma append_total:
  assumes "list_all text_typed x" and "list_all text_typed y"
  shows "\<exists>f. Fragment_append x y = Inr f"
proof (cases "Fragment_size y = 0 \<or> Fragment_size x = 0")
  case True
  then show ?thesis by (auto simp: Fragment_append_def)
next
  case False
  then have ne: "x \<noteq> []" "y \<noteq> []" by auto
  then have tt: "text_typed (last x)" using assms(1) by (simp add: list_all_iff)
  show ?thesis
  proof (cases "isText (last x) \<and> sameMarkup (last x) (hd y)")
    case True
    then obtain n where "withText (last x) (text_or_undefined (last x) @ text_or_undefined (hd y)) = Inr n"
      using withText_total_left [OF tt] by blast
    then show ?thesis using True False by (simp add: Fragment_append_def Let_def)
  next
    case nm: False
    then show ?thesis using False by (auto simp: Fragment_append_def Let_def)
  qed
qed




subsection \<open>The JSON round trip\<close>

lemma hasKey_iff: "hasKey p b = (p \<in> fst ` set b)"
  by (simp add: hasKey_def map_of_eq_None_iff)

lemma computeAttrs_built:
  assumes "list_all (\<lambda>name. hasKey name a) (map fst spec)" and "a \<noteq> []"
  shows "\<exists>built. computeAttrs spec (Some (JObj a)) = Inr built
     \<and> map fst built = map fst spec
     \<and> (\<forall>name\<in>set (map fst spec). map_of built name = map_of a name)"
  using assms(1)
proof (induction spec)
  case Nil
  then show ?case by simp
next
  case (Cons x spec)
  obtain name attr where x: "x = (name, attr)" by (cases x)
  from Cons.prems x obtain v where v: "map_of a name = Some v"
    by (auto simp: hasKey_def)
  from Cons obtain built where b: "computeAttrs spec (Some (JObj a)) = Inr built"
    "map fst built = map fst spec"
    "\<forall>n\<in>set (map fst spec). map_of built n = map_of a n" by auto
  have "computeAttrs (x # spec) (Some (JObj a)) = Inr ((name, v) # built)"
    using x v b(1) assms(2) by (simp add: falsy_def js_prop_def)
  then show ?case using b(2,3) v x by auto
qed

lemma built_attrs_roundtrip:
  assumes "built_attrs spec a" and "a \<noteq> []"
  shows "\<exists>built. computeAttrs spec (Some (JObj a)) = Inr built
     \<and> compareDeep (JObj built) (JObj a) \<and> checkAttrs spec built = Inr ()"
proof -
  have keys: "list_all (\<lambda>name. hasKey name a) (map fst spec)"
    and chk: "checkAttrs spec a = Inr ()"
    using assms(1) by (simp_all add: built_attrs_def)
  from computeAttrs_built [OF keys assms(2)]
  obtain built where b: "computeAttrs spec (Some (JObj a)) = Inr built"
    "map fst built = map fst spec"
    "\<forall>name\<in>set (map fst spec). map_of built name = map_of a name" by blast
  have sub: "list_all (\<lambda>name. hasKey name spec) (map fst a)"
    and val: "list_all (\<lambda>(name, attr). case validate attr of None \<Rightarrow> True
                   | Some types \<Rightarrow> type_name (map_of a name) \<in> set types) spec"
    using chk by (auto simp: checkAttrs_def split: if_splits)
  have keq: "fst ` set built = fst ` set spec" using b(2) by (metis set_map)
  have cd: "compareDeep (JObj built) (JObj a)"
    unfolding compareDeep_obj_iff
  proof (intro conjI allI impI)
    fix p v assume pv: "map_of built p = Some v"
    then have "p \<in> fst ` set built" by (metis map_of_eq_None_iff option.distinct(1))
    then have "p \<in> set (map fst spec)" using keq by simp
    then have "map_of a p = Some v" using b(3) pv by auto
    then show "\<exists>w. map_of a p = Some w \<and> compareDeep v w" by (simp add: compareDeep_refl)
  next
    fix p assume "map_of a p \<noteq> None"
    then have "p \<in> fst ` set a" by (simp add: map_of_eq_None_iff)
    then have "hasKey p spec" using sub by (auto simp: list_all_iff)
    then have "p \<in> fst ` set built" using keq by (simp add: hasKey_iff)
    then show "map_of built p \<noteq> None" by (simp add: map_of_eq_None_iff)
  qed
  have c1: "list_all (\<lambda>name. hasKey name spec) (map fst built)"
    using b(2) by (auto simp: list_all_iff hasKey_iff)
  have c2: "list_all (\<lambda>(name, attr). case validate attr of None \<Rightarrow> True
                   | Some types \<Rightarrow> type_name (map_of built name) \<in> set types) spec"
    unfolding list_all_iff
  proof
    fix x assume x: "x \<in> set spec"
    obtain name attr where na: "x = (name, attr)" by (cases x)
    then have "name \<in> set (map fst spec)" using x by force
    then have e: "map_of built name = map_of a name" using b(3) by blast
    have "case validate attr of None \<Rightarrow> True
                   | Some types \<Rightarrow> type_name (map_of a name) \<in> set types"
      using val x na by (auto simp: list_all_iff)
    then show "case x of (name, attr) \<Rightarrow> case validate attr of None \<Rightarrow> True
                   | Some types \<Rightarrow> type_name (map_of built name) \<in> set types"
      using e by (simp add: na split: option.splits)
  qed
  have "checkAttrs spec built = Inr ()" using c1 c2 by (simp add: checkAttrs_def)
  then show ?thesis using b(1) cd by blast
qed

lemma built_attrs_Nil: "built_attrs spec [] \<Longrightarrow> spec = []"
  by (cases spec) (auto simp: built_attrs_def hasKey_def)

lemma Mark_roundtrip:
  assumes "built_mark schema m"
  shows "\<exists>m'. Mark_fromJSON schema (Some (Mark_toJSON m)) = Inr m'
     \<and> mark_type m' = mark_type m \<and> Mark_eq m' m"
proof -
  obtain t a where m: "m = Mark t a" by (cases m)
  have look: "map_of (schema_marks schema) (mt_name t) = Some t"
    and ba: "built_attrs (mt_attrs t) a"
    using assms m by (simp_all add: built_mark_def)
  show ?thesis
  proof (cases "a = []")
    case True
    then have "mt_attrs t = []" using ba built_attrs_Nil by blast
    then have "Mark_fromJSON schema (Some (Mark_toJSON m)) = Inr (Mark t [])"
      using m True look
      by (simp add: Mark_fromJSON_def Mark_toJSON_def falsy_def js_prop_def toKey_def
          MarkType_create_def checkAttrs_def)
    then show ?thesis using m True by (simp add: Mark_eq_def compareDeep_refl)
  next
    case False
    from built_attrs_roundtrip [OF ba False]
    obtain built where b: "computeAttrs (mt_attrs t) (Some (JObj a)) = Inr built"
      "compareDeep (JObj built) (JObj a)" "checkAttrs (mt_attrs t) built = Inr ()" by blast
    have "Mark_fromJSON schema (Some (Mark_toJSON m)) = Inr (Mark t built)"
      using m False look b(1,3)
      by (simp add: Mark_fromJSON_def Mark_toJSON_def falsy_def js_prop_def toKey_def
          MarkType_create_def)
    then show ?thesis using m b(2) by (simp add: Mark_eq_def)
  qed
qed

lemma marks_roundtrip:
  "list_all (built_mark schema) ms \<Longrightarrow>
   \<exists>ms'. mapE (\<lambda>j. Mark_fromJSON schema (Some j)) (map Mark_toJSON ms) = Inr ms'
     \<and> map mark_type ms' = map mark_type ms \<and> list_all2 Mark_eq ms' ms"
proof (induction ms)
  case Nil
  then show ?case by simp
next
  case (Cons m ms)
  then obtain ms' where r: "mapE (\<lambda>j. Mark_fromJSON schema (Some j)) (map Mark_toJSON ms) = Inr ms'"
    "map mark_type ms' = map mark_type ms" "list_all2 Mark_eq ms' ms" by auto
  from Cons.prems Mark_roundtrip [of schema m]
  obtain m' where m': "Mark_fromJSON schema (Some (Mark_toJSON m)) = Inr m'"
    "mark_type m' = mark_type m" "Mark_eq m' m" by auto
  show ?case using r m' by simp
qed

lemma marks_json_roundtrip:
  assumes "built_marks schema ms"
  shows "\<exists>r. (if ms = [] then Inr None
              else bindE (mapE (\<lambda>j. Mark_fromJSON schema (Some j)) (map Mark_toJSON ms))
                     (\<lambda>l. Inr (Some l))) = Inr r
     \<and> sameSet (setFrom r) ms"
proof (cases "ms = []")
  case True
  then show ?thesis by (simp add: setFrom_def sameSet_def)
next
  case False
  from assms have bm: "list_all (built_mark schema) ms" and rs: "rank_sorted ms"
    by (simp_all add: built_marks_def)
  from marks_roundtrip [OF bm]
  obtain ms' where r: "mapE (\<lambda>j. Mark_fromJSON schema (Some j)) (map Mark_toJSON ms) = Inr ms'"
    "map mark_type ms' = map mark_type ms" "list_all2 Mark_eq ms' ms" by blast
  have "map mt_rank (map mark_type ms') = map mt_rank (map mark_type ms)"
    using r(2) by simp
  then have "map (\<lambda>m. mt_rank (mark_type m)) ms' = map (\<lambda>m. mt_rank (mark_type m)) ms"
    by (simp add: comp_def)
  then have "sorted (map (\<lambda>m. mt_rank (mark_type m)) ms')"
    using rs by (simp add: rank_sorted_def)
  then have "setFrom (Some ms') = ms'"
    by (simp add: setFrom_def sort_key_id_if_sorted)
  then show ?thesis using False r by (simp add: sameSet_def)
qed

lemma js_prop_Node:
  "js_prop (Some (Node_toJSON (Node t a c m))) ''type'' = Some (JStr (nt_name t))"
  "js_prop (Some (Node_toJSON (Node t a c m))) ''attrs'' = (if a \<noteq> [] then Some (JObj a) else None)"
  "js_prop (Some (Node_toJSON (Node t a c m))) ''content'' =
     (if Fragment_size c \<noteq> 0 then Some (if c \<noteq> [] then JArr (map Node_toJSON c) else JNull)
      else None)"
  "js_prop (Some (Node_toJSON (Node t a c m))) ''marks'' =
     (if m \<noteq> [] then Some (JArr (map Mark_toJSON m)) else None)"
  by (simp_all add: js_prop_def)

lemma js_prop_TextNode:
  "js_prop (Some (Node_toJSON (TextNode t a s m))) ''type'' = Some (JStr (nt_name t))"
  "js_prop (Some (Node_toJSON (TextNode t a s m))) ''text'' = Some (JStr s)"
  "js_prop (Some (Node_toJSON (TextNode t a s m))) ''marks'' =
     (if m \<noteq> [] then Some (JArr (map Mark_toJSON m)) else None)"
  by (simp_all add: js_prop_def)

lemma not_falsy_toJSON: "\<not> falsy (Some (Node_toJSON d))"
  by (cases d) (simp_all add: falsy_def)

lemma built_from_size: "built_from schema n \<Longrightarrow> 0 < nodeSize n"
  by (cases n) (auto simp: Fragment_size_nonneg add_pos_nonneg)

lemma built_from_size_Nil:
  "list_all (built_from schema) c \<Longrightarrow> Fragment_size c = 0 \<Longrightarrow> c = []"
proof (cases c)
  case (Cons n ns)
  assume "list_all (built_from schema) c" "Fragment_size c = 0"
  then have "0 < nodeSize n" "nodeSize n + Fragment_size ns = 0"
    using Cons built_from_size by auto
  then show ?thesis using Fragment_size_nonneg [of ns] by linarith
qed simp

lemma marks_branch:
  assumes "built_marks schema m"
  shows "\<exists>r. (if falsy (if m \<noteq> [] then Some (JArr (map Mark_toJSON m)) else None) then Inr None
          else case (if m \<noteq> [] then Some (JArr (map Mark_toJSON m)) else None) of
                 Some (JArr ms) \<Rightarrow>
                   bindE (mapE (\<lambda>m. Mark_fromJSON schema (Some m)) ms) (\<lambda>l. Inr (Some l))
               | _ \<Rightarrow> Inl (RangeError ''Invalid mark data for Node.fromJSON'')) = Inr r
     \<and> sameSet (setFrom r) m"
  using marks_json_roundtrip [OF assms] by (auto simp: falsy_def)

lemma children_roundtrip:
  assumes "\<And>x. x \<in> set c \<Longrightarrow> built_from schema x \<Longrightarrow>
     \<exists>d'. Node_fromJSON schema (Some (Node_toJSON x)) = Inr d' \<and> Node_eq d' x"
    and "list_all (built_from schema) c"
  shows "\<exists>c'. mapE (\<lambda>x. Node_fromJSON schema (Some x)) (map Node_toJSON c) = Inr c'
     \<and> list_all2 Node_eq c' c"
  using assms
proof (induction c)
  case Nil
  then show ?case by simp
next
  case (Cons n ns)
  have bn: "built_from schema n" "list_all (built_from schema) ns"
    using Cons.prems(2) by simp_all
  from Cons.prems(1) [of n] bn(1)
  obtain n' where n': "Node_fromJSON schema (Some (Node_toJSON n)) = Inr n'" "Node_eq n' n"
    by auto
  have "\<exists>c'. mapE (\<lambda>x. Node_fromJSON schema (Some x)) (map Node_toJSON ns) = Inr c'
     \<and> list_all2 Node_eq c' ns"
    using Cons.IH Cons.prems(1) bn(2) by simp
  then obtain ns' where ns':
    "mapE (\<lambda>x. Node_fromJSON schema (Some x)) (map Node_toJSON ns) = Inr ns'"
    "list_all2 Node_eq ns' ns" by blast
  show ?case using n' ns' by simp
qed

lemma Node_roundtrip:
  "built_from schema d \<Longrightarrow>
   \<exists>d'. Node_fromJSON schema (Some (Node_toJSON d)) = Inr d' \<and> Node_eq d' d"
proof (induction d)
  case (TextNode t a s m)
  then have look: "map_of (schema_nodes schema) ''text'' = Some t" and nm: "nt_name t = ''text''"
    and da: "defaultAttrs (nt_attrs t) = Some a" and s: "s \<noteq> []"
    and bm: "built_marks schema m" by simp_all
  from marks_branch [OF bm] obtain r where r:
    "(if falsy (if m \<noteq> [] then Some (JArr (map Mark_toJSON m)) else None) then Inr None
          else case (if m \<noteq> [] then Some (JArr (map Mark_toJSON m)) else None) of
                 Some (JArr ms) \<Rightarrow>
                   bindE (mapE (\<lambda>m. Mark_fromJSON schema (Some m)) ms) (\<lambda>l. Inr (Some l))
               | _ \<Rightarrow> Inl (RangeError ''Invalid mark data for Node.fromJSON'')) = Inr r"
    "sameSet (setFrom r) m" by blast
  have "Node_fromJSON schema (Some (Node_toJSON (TextNode t a s m)))
          = Inr (TextNode t a s (setFrom r))"
    apply (subst Node_fromJSON.simps)
    apply (simp only: not_falsy_toJSON js_prop_TextNode if_False r(1) bindE_Inr)
    apply (simp add: loosely_text_def nm Schema_text_def look da s)
    done
  moreover have "Node_eq (TextNode t a s (setFrom r)) (TextNode t a s m)"
    using r(2) by (simp add: sameMarkup_def compareDeep_refl)
  ultimately show ?case by simp
next
  case (Node t a c m)
  then have look: "map_of (schema_nodes schema) (nt_name t) = Some t"
    and nm: "nt_name t \<noteq> ''text''" and ba: "built_attrs (nt_attrs t) a"
    and bm: "built_marks schema m" and bc: "list_all (built_from schema) c" by simp_all
  from marks_branch [OF bm] obtain r where r:
    "(if falsy (if m \<noteq> [] then Some (JArr (map Mark_toJSON m)) else None) then Inr None
          else case (if m \<noteq> [] then Some (JArr (map Mark_toJSON m)) else None) of
                 Some (JArr ms) \<Rightarrow>
                   bindE (mapE (\<lambda>m. Mark_fromJSON schema (Some m)) ms) (\<lambda>l. Inr (Some l))
               | _ \<Rightarrow> Inl (RangeError ''Invalid mark data for Node.fromJSON'')) = Inr r"
    "sameSet (setFrom r) m" by blast
  from children_roundtrip [of c schema] Node.IH bc
  obtain c' where c': "mapE (\<lambda>x. Node_fromJSON schema (Some x)) (map Node_toJSON c) = Inr c'"
    "list_all2 Node_eq c' c" by blast
  let ?cj = "if Fragment_size c \<noteq> 0
             then Some (if c \<noteq> [] then JArr (map Node_toJSON c) else JNull) else None"
  have content: "(if falsy ?cj then Inr []
                  else case ?cj of
                         Some (JArr xs) \<Rightarrow> mapE (\<lambda>x. Node_fromJSON schema (Some x)) xs
                       | _ \<Rightarrow> Inl (RangeError ''Invalid input for Fragment.fromJSON'')) = Inr c'"
  proof (cases "Fragment_size c = 0")
    case True
    then have "c = []" using bc built_from_size_Nil by blast
    then show ?thesis using c' by (simp add: falsy_def)
  next
    case False
    then have "c \<noteq> []" by auto
    then show ?thesis using False c' by (simp add: falsy_def)
  qed
  have attrs: "\<exists>b. NodeType_computeAttrs t (if a \<noteq> [] then Some (JObj a) else None) = Inr b
      \<and> compareDeep (JObj b) (JObj a) \<and> checkAttrs (nt_attrs t) b = Inr ()"
  proof (cases "a = []")
    case True
    then have "nt_attrs t = []" using ba built_attrs_Nil by blast
    then show ?thesis using True
      by (simp add: NodeType_computeAttrs_def falsy_def checkAttrs_def compareDeep_refl)
  next
    case False
    from built_attrs_roundtrip [OF ba False] show ?thesis
      using False by (simp add: NodeType_computeAttrs_def falsy_def)
  qed
  then obtain b where b: "NodeType_computeAttrs t (if a \<noteq> [] then Some (JObj a) else None) = Inr b"
    "compareDeep (JObj b) (JObj a)" "checkAttrs (nt_attrs t) b = Inr ()" by blast
  have "Node_fromJSON schema (Some (Node_toJSON (Node t a c m))) = Inr (Node t b c' (setFrom r))"
    apply (subst Node_fromJSON.simps)
    apply (simp only: not_falsy_toJSON js_prop_Node if_False r(1) bindE_Inr content)
    apply (simp add: loosely_text_def nm toKey_def nodeType_def look NodeType_create_def
        type_isText_def b Fragment_from_def)
    done
  moreover have "Node_eq (Node t b c' (setFrom r)) (Node t a c m)"
    using r(2) b(2) c'(2) by (simp add: sameMarkup_def)
  ultimately show ?case by simp
qed



end
